theory Spec2Isabelle
  imports Complex_Main "HOL-Library.Finite_Map"
begin

section \<open>JavaScript values\<close>

text \<open>
  The template engine, the generators and the parser all work on untyped JavaScript data
  (\<^verbatim>\<open>any\<close>, \<^verbatim>\<open>Record<string, any>\<close>). A value is one of the cases below. Numbers
  are the integers (no fractions, no NaN, no infinities); an object is the finite map of
  its own properties, so property names inherited from \<^verbatim>\<open>Object.prototype\<close> are not
  part of the model; strings are lists of 8-bit characters.
\<close>

datatype jsval =
    JUndefined
  | JNull
  | JBool bool
  | JNum int
  | JStr string
  | JArr "jsval list"
  | JObj "(string, jsval) fmap"

type_synonym TemplateContext = "(string, jsval) fmap"

subsection \<open>Strings\<close>

definition starts_with :: "string \<Rightarrow> string \<Rightarrow> bool" where
  "starts_with s p = (take (length p) s = p)"

text \<open>The first occurrence of \<open>pat\<close> in a string: the text before it and the text after it.\<close>

fun find_first :: "string \<Rightarrow> string \<Rightarrow> (string \<times> string) option" where
  "find_first pat [] = (if pat = [] then Some ([], []) else None)"
| "find_first pat (c # cs) =
     (if starts_with (c # cs) pat then Some ([], drop (length pat) (c # cs))
      else map_option (\<lambda>(b, a). (c # b, a)) (find_first pat cs))"

definition js_includes :: "string \<Rightarrow> string \<Rightarrow> bool" where
  "js_includes s pat = (find_first pat s \<noteq> None)"

definition is_space :: "char \<Rightarrow> bool" where
  "is_space c = (c \<in> set [CHR '' '', CHR 0x09, CHR 0x0A, CHR 0x0B, CHR 0x0C, CHR 0x0D])"

definition trim :: "string \<Rightarrow> string" where
  "trim s = rev (dropWhile is_space (rev (dropWhile is_space s)))"

text \<open>\<^verbatim>\<open>s.split(sep)\<close> for a one-character separator.\<close>

fun split_on :: "char \<Rightarrow> string \<Rightarrow> string list" where
  "split_on sep [] = [[]]"
| "split_on sep (c # cs) =
     (if c = sep then [] # split_on sep cs
      else (case split_on sep cs of [] \<Rightarrow> [[c]] | p # ps \<Rightarrow> (c # p) # ps))"

fun join :: "string \<Rightarrow> string list \<Rightarrow> string" where
  "join sep [] = []"
| "join sep [x] = x"
| "join sep (x # y # ys) = x @ sep @ join sep (y # ys)"

text \<open>Decimal numerals, as \<^verbatim>\<open>String(n)\<close> prints an integer.\<close>

definition digit_char :: "nat \<Rightarrow> char" where
  "digit_char d = ''0123456789'' ! (d mod 10)"

fun show_nat :: "nat \<Rightarrow> string" where
  "show_nat n = (if n < 10 then [digit_char n] else show_nat (n div 10) @ [digit_char (n mod 10)])"

declare show_nat.simps [simp del]

definition show_int :: "int \<Rightarrow> string" where
  "show_int i = (if i < 0 then CHR ''-'' # show_nat (nat (- i)) else show_nat (nat i))"

subsection \<open>Coercions and property access\<close>

text \<open>\<^verbatim>\<open>!!value\<close>\<close>

fun ToBoolean :: "jsval \<Rightarrow> bool" where
  "ToBoolean JUndefined = False"
| "ToBoolean JNull = False"
| "ToBoolean (JBool b) = b"
| "ToBoolean (JNum n) = (n \<noteq> 0)"
| "ToBoolean (JStr s) = (s \<noteq> [])"
| "ToBoolean (JArr xs) = True"
| "ToBoolean (JObj m) = True"

text \<open>\<^verbatim>\<open>String(value)\<close>; an array prints its elements joined by commas, with
  \<^verbatim>\<open>null\<close> and \<^verbatim>\<open>undefined\<close> elements printed as nothing.\<close>

fun js_String :: "jsval \<Rightarrow> string" where
  "js_String JUndefined = ''undefined''"
| "js_String JNull = ''null''"
| "js_String (JBool b) = (if b then ''true'' else ''false'')"
| "js_String (JNum n) = show_int n"
| "js_String (JStr s) = s"
| "js_String (JArr xs) =
     join '','' (map (\<lambda>x. if x = JUndefined \<or> x = JNull then [] else js_String x) xs)"
| "js_String (JObj m) = ''[object Object]''"

text \<open>\<^verbatim>\<open>value[part]\<close> for a string key: an own property of an object, an element or
  the length of an array or of a string, \<^verbatim>\<open>undefined\<close> otherwise.\<close>

definition index_of_key :: "nat \<Rightarrow> string \<Rightarrow> nat option" where
  "index_of_key n part = List.find (\<lambda>i. show_nat i = part) [0..<n]"

fun js_get :: "jsval \<Rightarrow> string \<Rightarrow> jsval" where
  "js_get (JObj m) part = (case fmlookup m part of Some v \<Rightarrow> v | None \<Rightarrow> JUndefined)"
| "js_get (JArr xs) part =
     (case index_of_key (length xs) part of
        Some i \<Rightarrow> xs ! i
      | None \<Rightarrow> if part = ''length'' then JNum (int (length xs)) else JUndefined)"
| "js_get (JStr s) part =
     (case index_of_key (length s) part of
        Some i \<Rightarrow> JStr [s ! i]
      | None \<Rightarrow> if part = ''length'' then JNum (int (length s)) else JUndefined)"
| "js_get v part = JUndefined"

section \<open>The template engine\<close>

record TemplateEngineOptions =
  preserveUnmatched :: bool
  tagStart :: string
  tagEnd :: string
  enableConditionals :: bool
  enableLoops :: bool
  enablePartials :: bool

definition default_options :: TemplateEngineOptions where
  "default_options =
     \<lparr> preserveUnmatched = False, tagStart = ''{'', tagEnd = ''}'',
       enableConditionals = True, enableLoops = True, enablePartials = True \<rparr>"

text \<open>\<^verbatim>\<open>tagStart || '{'\<close> and \<^verbatim>\<open>tagEnd || '}'\<close>\<close>

definition tag_start :: "TemplateEngineOptions \<Rightarrow> string" where
  "tag_start opts = (if tagStart opts = [] then ''{'' else tagStart opts)"

definition tag_end :: "TemplateEngineOptions \<Rightarrow> string" where
  "tag_end opts = (if tagEnd opts = [] then ''}'' else tagEnd opts)"

subsection \<open>getNestedValue and isTruthy\<close>

definition getNestedValue :: "jsval \<Rightarrow> string \<Rightarrow> jsval" where
  "getNestedValue obj path =
     (if path = [] then obj
      else fold (\<lambda>part v. if v = JNull \<or> v = JUndefined then JUndefined else js_get v part)
             (split_on CHR ''.'' path) obj)"

definition isTruthy :: "jsval \<Rightarrow> bool" where
  "isTruthy v =
     (case v of
        JArr xs \<Rightarrow> length xs > 0
      | JObj m \<Rightarrow> fmdom m \<noteq> {||}
      | _ \<Rightarrow> ToBoolean v)"

subsection \<open>The four tag patterns\<close>

text \<open>
  Each pattern of the engine is an opening literal, a lazily repeated character class
  \<^verbatim>\<open>(C+?)\<close> that captures the path, and a remainder. \<open>scan_lazy\<close> is the lazy
  repetition with backtracking: after every character taken (at least one) the remainder
  \<open>k\<close> is tried on what follows, and the first success is the match.
\<close>

fun scan_lazy :: "(char \<Rightarrow> bool) \<Rightarrow> (string \<Rightarrow> string \<Rightarrow> 'a option) \<Rightarrow> string \<Rightarrow> string \<Rightarrow> 'a option" where
  "scan_lazy cls k acc [] = (if acc \<noteq> [] then k acc [] else None)"
| "scan_lazy cls k acc (c # cs) =
     (case (if acc \<noteq> [] then k acc (c # cs) else None) of
        Some r \<Rightarrow> Some r
      | None \<Rightarrow> if cls c then scan_lazy cls k (acc @ [c]) cs else None)"

text \<open>\<^verbatim>\<open>[^\{\}]\<close> and \<^verbatim>\<open>[^#\/\?\>\{\}]\<close>\<close>

definition not_brace :: "char \<Rightarrow> bool" where
  "not_brace c = (c \<notin> set ''{}'')"

definition var_char :: "char \<Rightarrow> bool" where
  "var_char c = (c \<notin> set ''#/?>{}'')"

text \<open>The remainder \<^verbatim>\<open>END\<close> of the variable and partial patterns.\<close>

definition close_tag :: "TemplateEngineOptions \<Rightarrow> string \<Rightarrow> string \<Rightarrow> (string \<times> string) option" where
  "close_tag opts path s =
     (if starts_with s (tag_end opts) then Some (path, drop (length (tag_end opts)) s) else None)"

text \<open>The remainder \<^verbatim>\<open>END([\s\S]*?)START\/\1END\<close> of the block patterns: the content
  runs up to the first closing tag that repeats the captured path.\<close>

definition close_block :: "TemplateEngineOptions \<Rightarrow> string \<Rightarrow> string \<Rightarrow> (string \<times> string \<times> string) option" where
  "close_block opts path s =
     (if starts_with s (tag_end opts)
      then (case find_first (tag_start opts @ ''/'' @ path @ tag_end opts)
                   (drop (length (tag_end opts)) s) of
              Some (content, rest) \<Rightarrow> Some (path, content, rest)
            | None \<Rightarrow> None)
      else None)"

text \<open>A match of \<^verbatim>\<open>varRegex\<close> at the head of \<open>s\<close>: the captured path and the text
  after the match.\<close>

definition match_var :: "TemplateEngineOptions \<Rightarrow> string \<Rightarrow> (string \<times> string) option" where
  "match_var opts s =
     (if starts_with s (tag_start opts)
      then scan_lazy var_char (close_tag opts) [] (drop (length (tag_start opts)) s)
      else None)"

text \<open>A match of \<^verbatim>\<open>partialRegex\<close> at the head of \<open>s\<close>.\<close>

definition match_partial :: "TemplateEngineOptions \<Rightarrow> string \<Rightarrow> (string \<times> string) option" where
  "match_partial opts s =
     (if starts_with s (tag_start opts @ ''>'')
      then scan_lazy not_brace (close_tag opts) [] (drop (length (tag_start opts @ ''>'')) s)
      else None)"

text \<open>A match of \<^verbatim>\<open>condRegex\<close> (sigil \<^verbatim>\<open>?\<close>) or \<^verbatim>\<open>loopRegex\<close> (sigil \<^verbatim>\<open>#\<close>)
  at the head of \<open>s\<close>: the captured path, the content and the text after the match.\<close>

definition match_block :: "TemplateEngineOptions \<Rightarrow> char \<Rightarrow> string \<Rightarrow> (string \<times> string \<times> string) option" where
  "match_block opts sigil s =
     (if starts_with s (tag_start opts @ [sigil])
      then scan_lazy not_brace (close_block opts) [] (drop (length (tag_start opts @ [sigil])) s)
      else None)"

subsection \<open>Matches consume input\<close>

lemma starts_with_length: "starts_with s p \<Longrightarrow> length p \<le> length s"
proof -
  assume "starts_with s p"
  then have "length (take (length p) s) = length p" by (simp add: starts_with_def)
  then show ?thesis by simp
qed

lemma find_first_length:
  "find_first pat s = Some (b, a) \<Longrightarrow> length b + length pat + length a = length s"
proof (induction s arbitrary: b a)
  case Nil
  then show ?case by (simp split: if_splits)
next
  case (Cons c cs)
  show ?case
  proof (cases "starts_with (c # cs) pat")
    case True
    with Cons.prems have b: "b = []" and a: "a = drop (length pat) (c # cs)" by auto
    from True have "length pat \<le> length (c # cs)" by (rule starts_with_length)
    with a b show ?thesis by simp
  next
    case False
    with Cons.prems obtain b' where r: "find_first pat cs = Some (b', a)" and b: "b = c # b'"
      by auto
    from Cons.IH [OF r] b show ?thesis by simp
  qed
qed

lemma scan_lazy_called:
  "scan_lazy cls k acc s = Some r \<Longrightarrow>
     \<exists>acc' s'. k acc' s' = Some r \<and> acc' \<noteq> [] \<and> length s' \<le> length s"
proof (induction s arbitrary: acc)
  case Nil
  then show ?case by (auto split: if_splits)
next
  case (Cons c cs)
  show ?case
  proof (cases "acc \<noteq> [] \<and> k acc (c # cs) = Some r")
    case True
    then show ?thesis by blast
  next
    case False
    with Cons.prems have "scan_lazy cls k (acc @ [c]) cs = Some r"
      by (auto split: option.splits if_splits)
    from Cons.IH [OF this] obtain acc' s' where
      "k acc' s' = Some r" "acc' \<noteq> []" "length s' \<le> length cs" by blast
    then have "k acc' s' = Some r \<and> acc' \<noteq> [] \<and> length s' \<le> length (c # cs)" by simp
    then show ?thesis by blast
  qed
qed

lemma tag_start_nonempty: "tag_start opts \<noteq> []"
  by (simp add: tag_start_def)

lemma tag_end_nonempty: "tag_end opts \<noteq> []"
  by (simp add: tag_end_def)

lemma close_tag_shorter:
  "close_tag opts p s = Some (q, rest) \<Longrightarrow> length rest \<le> length s"
  by (auto simp: close_tag_def split: if_splits)

lemma close_block_shorter:
  "close_block opts p s = Some (q, content, rest) \<Longrightarrow> length content + length rest \<le> length s"
  by (auto simp: close_block_def split: if_splits option.splits dest!: find_first_length)

lemma match_var_shorter:
  assumes "match_var opts s = Some (p, rest)"
  shows "length rest < length s"
proof -
  let ?st = "tag_start opts"
  from assms have sw: "starts_with s ?st"
    and sc: "scan_lazy var_char (close_tag opts) [] (drop (length ?st) s) = Some (p, rest)"
    by (auto simp: match_var_def split: if_splits)
  from sw have "length ?st \<le> length s"
    by (rule starts_with_length)
  moreover have "0 < length ?st" using tag_start_nonempty by simp
  moreover have "length rest \<le> length s - length ?st"
  proof -
    from scan_lazy_called [OF sc] obtain acc' s' where
      k: "close_tag opts acc' s' = Some (p, rest)" and l: "length s' \<le> length (drop (length ?st) s)"
      by blast
    from close_tag_shorter [OF k] l show ?thesis by simp
  qed
  ultimately show ?thesis by linarith
qed

lemma match_partial_shorter:
  assumes "match_partial opts s = Some (p, rest)"
  shows "length rest < length s"
proof -
  let ?st = "tag_start opts @ ''>''"
  from assms have sw: "starts_with s ?st"
    and sc: "scan_lazy not_brace (close_tag opts) [] (drop (length ?st) s) = Some (p, rest)"
    by (auto simp: match_partial_def split: if_splits)
  from sw have "length ?st \<le> length s"
    by (rule starts_with_length)
  moreover have "0 < length ?st" by simp
  moreover have "length rest \<le> length s - length ?st"
  proof -
    from scan_lazy_called [OF sc] obtain acc' s' where
      k: "close_tag opts acc' s' = Some (p, rest)" and l: "length s' \<le> length (drop (length ?st) s)"
      by blast
    from close_tag_shorter [OF k] l show ?thesis by simp
  qed
  ultimately show ?thesis by linarith
qed

lemma match_block_shorter:
  assumes "match_block opts sigil s = Some (p, content, rest)"
  shows "length content + length rest < length s"
proof -
  let ?st = "tag_start opts @ [sigil]"
  from assms have sw: "starts_with s ?st"
    and sc: "scan_lazy not_brace (close_block opts) [] (drop (length ?st) s) = Some (p, content, rest)"
    by (auto simp: match_block_def split: if_splits)
  from sw have "length ?st \<le> length s"
    by (rule starts_with_length)
  moreover have "0 < length ?st" by simp
  moreover have "length content + length rest \<le> length s - length ?st"
  proof -
    from scan_lazy_called [OF sc] obtain acc' s' where
      k: "close_block opts acc' s' = Some (p, content, rest)"
      and l: "length s' \<le> length (drop (length ?st) s)"
      by blast
    from close_block_shorter [OF k] l show ?thesis by simp
  qed
  ultimately show ?thesis by linarith
qed

subsection \<open>processVariables\<close>

text \<open>\<^verbatim>\<open>template.replace(varRegex, ...)\<close>: the matches are found from left to right and do
  not overlap; where no match starts the character is copied.\<close>

function processVariables :: "TemplateEngineOptions \<Rightarrow> string \<Rightarrow> TemplateContext \<Rightarrow> string" where
  "processVariables opts [] ctx = []"
| "processVariables opts (c # cs) ctx =
     (case match_var opts (c # cs) of
        Some (path, rest) \<Rightarrow>
          (let val = getNestedValue (JObj ctx) (trim path) in
           if val = JUndefined \<or> val = JNull
           then (if preserveUnmatched opts then tag_start opts @ path @ tag_end opts else [])
           else js_String val)
          @ processVariables opts rest ctx
      | None \<Rightarrow> c # processVariables opts cs ctx)"
  by pat_completeness auto
termination
  by (relation "measure (\<lambda>(opts, s, ctx). length s)") (auto dest: match_var_shorter)

subsection \<open>processConditionals\<close>

function processConditionals :: "TemplateEngineOptions \<Rightarrow> string \<Rightarrow> TemplateContext \<Rightarrow> string" where
  "processConditionals opts [] ctx = []"
| "processConditionals opts (c # cs) ctx =
     (case match_block opts CHR ''?'' (c # cs) of
        Some (path, content, rest) \<Rightarrow>
          (if isTruthy (getNestedValue (JObj ctx) (trim path))
           then processConditionals opts content ctx
           else [])
          @ processConditionals opts rest ctx
      | None \<Rightarrow> c # processConditionals opts cs ctx)"
  by pat_completeness auto
termination
  by (relation "measure (\<lambda>(opts, s, ctx). length s)") (auto dest: match_block_shorter)

lemma processConditionals_length:
  "length (processConditionals opts s ctx) \<le> length s"
proof (induction opts s ctx rule: processConditionals.induct)
  case (1 opts ctx)
  then show ?case by simp
next
  case (2 opts c cs ctx)
  show ?case
  proof (cases "match_block opts CHR ''?'' (c # cs)")
    case None
    with 2(1) show ?thesis by simp
  next
    case (Some r)
    then obtain path content rest where
      m: "match_block opts CHR ''?'' (c # cs) = Some (path, content, rest)"
      by (cases r) auto
    from match_block_shorter [OF m] have l: "length content + length rest < length (c # cs)" .
    have a: "length (processConditionals opts rest ctx) \<le> length rest"
      by (rule 2(3) [OF m]) simp_all
    show ?thesis
    proof (cases "isTruthy (getNestedValue (JObj ctx) (trim path))")
      case True
      have "length (processConditionals opts content ctx) \<le> length content"
        by (rule 2(2) [OF m _ _ True]) simp_all
      with a l m True show ?thesis by simp
    next
      case False
      with a l m show ?thesis by simp
    qed
  qed
qed

subsection \<open>processLoops\<close>

text \<open>The context of one iteration: the outer context, the loop metadata, the item under
  \<^verbatim>\<open>.\<close> and \<^verbatim>\<open>this\<close>, and then, by \<^verbatim>\<open>Object.assign\<close>, the own properties of an
  item that is an object or an array.\<close>

definition itemContext :: "TemplateContext \<Rightarrow> jsval list \<Rightarrow> nat \<Rightarrow> TemplateContext" where
  "itemContext ctx val index =
     (let item = val ! index;
          base = ctx ++\<^sub>f fmap_of_list
            [(''@index'', JNum (int index)),
             (''@first'', JBool (index = 0)),
             (''@last'', JBool (int index = int (length val) - 1)),
             (''@key'', JNum (int index)),
             (''.'', item),
             (''this'', item)]
      in case item of
           JObj m \<Rightarrow> base ++\<^sub>f m
         | JArr xs \<Rightarrow> base ++\<^sub>f fmap_of_list (zip (map show_nat [0..<length xs]) xs)
         | _ \<Rightarrow> base)"

function processLoops :: "TemplateEngineOptions \<Rightarrow> string \<Rightarrow> TemplateContext \<Rightarrow> string" where
  "processLoops opts [] ctx = []"
| "processLoops opts (c # cs) ctx =
     (case match_block opts CHR ''#'' (c # cs) of
        Some (path, content, rest) \<Rightarrow>
          (case getNestedValue (JObj ctx) (trim path) of
             JArr val \<Rightarrow>
               concat (map (\<lambda>index.
                 processVariables opts
                   (processLoops opts
                      (processConditionals opts content (itemContext ctx val index))
                      (itemContext ctx val index))
                   (itemContext ctx val index)) [0..<length val])
           | _ \<Rightarrow> [])
          @ processLoops opts rest ctx
      | None \<Rightarrow> c # processLoops opts cs ctx)"
  by pat_completeness auto
termination
proof (relation "measure (\<lambda>(opts, s, ctx). length s)", goal_cases)
  case 1
  show ?case by simp
next
  case (2 opts c cs ctx)
  then show ?case by simp
next
  case (3 opts c cs ctx x2 x y xa ya x6 xb)
  then have "match_block opts CHR ''#'' (c # cs) = Some (x, xa, ya)" by simp
  from match_block_shorter [OF this] processConditionals_length [of opts xa "itemContext ctx x6 xb"]
  show ?case by simp
next
  case (4 opts c cs ctx x2 x y xa ya)
  then have "match_block opts CHR ''#'' (c # cs) = Some (x, xa, ya)" by simp
  from match_block_shorter [OF this] show ?case by simp
qed


subsection \<open>processPartials and render\<close>

record TemplateEngine =
  options :: TemplateEngineOptions
  partials :: "(string, string) fmap"

definition partial_not_found :: "string \<Rightarrow> string" where
  "partial_not_found name = ''<!-- Partial '' @ [CHR 0x27] @ name @ [CHR 0x27] @ '' not found -->''"

text \<open>
  \<open>render\<close> and \<open>processPartials\<close> call each other, and a partial that includes itself
  makes the source recurse without end. The model bounds the depth of nested \<open>render\<close>
  calls by a fuel argument; \<open>None\<close> is the run that exceeds it. \<open>processPartials\<close>
  takes the renderer of the next level as \<open>rend\<close>.
\<close>

function processPartials ::
  "TemplateEngine \<Rightarrow> (string \<Rightarrow> TemplateContext \<Rightarrow> string option) \<Rightarrow> string \<Rightarrow> TemplateContext \<Rightarrow> string option" where
  "processPartials eng rend [] ctx = Some []"
| "processPartials eng rend (c # cs) ctx =
     (case match_partial (options eng) (c # cs) of
        Some (name, rest) \<Rightarrow>
          (case (case fmlookup (partials eng) (trim name) of
                   None \<Rightarrow> Some (partial_not_found (trim name))
                 | Some partial \<Rightarrow>
                     if partial = [] then Some (partial_not_found (trim name))
                     else rend partial ctx) of
             None \<Rightarrow> None
           | Some r \<Rightarrow> map_option ((@) r) (processPartials eng rend rest ctx))
      | None \<Rightarrow> map_option ((#) c) (processPartials eng rend cs ctx))"
  by pat_completeness auto
termination
  by (relation "measure (\<lambda>(eng, rend, s, ctx). length s)") (auto dest: match_partial_shorter)

fun render :: "TemplateEngine \<Rightarrow> nat \<Rightarrow> string \<Rightarrow> TemplateContext \<Rightarrow> string option" where
  "render eng 0 template ctx = None"
| "render eng (Suc fuel) template ctx =
     (let r1 = (if enableConditionals (options eng)
                then processConditionals (options eng) template ctx else template);
          r2 = (if enableLoops (options eng)
                then processLoops (options eng) r1 ctx else r1)
      in case (if enablePartials (options eng)
               then processPartials eng (render eng fuel) r2 ctx else Some r2) of
           None \<Rightarrow> None
         | Some r3 \<Rightarrow> Some (processVariables (options eng) r3 ctx))"

definition default_engine :: TemplateEngine where
  "default_engine = \<lparr> options = default_options, partials = fmempty \<rparr>"

definition registerPartial :: "string \<Rightarrow> string \<Rightarrow> TemplateEngine \<Rightarrow> TemplateEngine" where
  "registerPartial name template eng = eng \<lparr> partials := fmupd name template (partials eng) \<rparr>"

text \<open>An engine with one registered partial, and a context, for the examples.\<close>

definition example_engine :: TemplateEngine where
  "example_engine = registerPartial ''p'' ''{#xs}{this}{/xs}{name}'' default_engine"

definition example_context :: TemplateContext where
  "example_context =
     fmap_of_list
       [(''on'', JBool True), (''name'', JStr ''z''),
        (''xs'', JArr [JNum 1, JNum 2]),
        (''items'', JArr [JObj (fmap_of_list [(''name'', JStr ''a''), (''off'', JBool True)])])]"

subsection \<open>Tags at the default delimiters\<close>

lemma tag_start_default: "tag_start (default_options\<lparr>preserveUnmatched := b\<rparr>) = ''{''"
  by (simp add: tag_start_def default_options_def)

lemma tag_end_default: "tag_end (default_options\<lparr>preserveUnmatched := b\<rparr>) = ''}''"
  by (simp add: tag_end_def default_options_def)

lemma scan_lazy_run:
  assumes fail: "\<And>a c s. c \<in> set p \<Longrightarrow> k a (c # s) = None"
    and cls: "\<forall>c\<in>set p. cls c"
    and stop: "\<not> cls d"
    and ne: "acc @ p \<noteq> []"
  shows "scan_lazy cls k acc (p @ d # s) = k (acc @ p) (d # s)"
  using fail cls ne
proof (induction p arbitrary: acc)
  case Nil
  with stop show ?case by (simp split: option.splits)
next
  case (Cons c p)
  have "k acc (c # p @ d # s) = None" by (rule Cons.prems(1)) simp
  moreover have "scan_lazy cls k (acc @ [c]) (p @ d # s) = k ((acc @ [c]) @ p) (d # s)"
    using Cons.prems by (intro Cons.IH) auto
  ultimately show ?case using Cons.prems(2) by (cases "acc = []") simp_all
qed

lemma find_first_here:
  assumes "pat = h # q" and "h \<notin> set X"
  shows "find_first pat (X @ pat @ rest) = Some (X, rest)"
  using assms(2)
proof (induction X)
  case Nil
  show ?case using assms(1) by (cases rest) (simp_all add: starts_with_def)
next
  case (Cons x X)
  then have "x \<noteq> h" by auto
  then have "\<not> starts_with (x # X @ pat @ rest) pat"
    using assms(1) by (simp add: starts_with_def)
  with Cons show ?case by simp
qed


lemma close_tag_fails:
  "tag_end opts = ''}'' \<Longrightarrow> c \<noteq> CHR ''}'' \<Longrightarrow> close_tag opts a (c # s) = None"
  by (simp add: close_tag_def starts_with_def)

lemma close_block_fails:
  "tag_end opts = ''}'' \<Longrightarrow> c \<noteq> CHR ''}'' \<Longrightarrow> close_block opts a (c # s) = None"
  by (simp add: close_block_def starts_with_def)

lemma match_var_tag:
  assumes "tag_start opts = ''{''" and "tag_end opts = ''}''"
    and "p \<noteq> []" and "\<forall>c\<in>set p. var_char c"
  shows "match_var opts (''{'' @ p @ ''}'' @ rest) = Some (p, rest)"
proof -
  have "scan_lazy var_char (close_tag opts) [] (p @ CHR ''}'' # rest)
          = close_tag opts ([] @ p) (CHR ''}'' # rest)"
  proof (rule scan_lazy_run)
    fix a c s assume "c \<in> set p"
    with assms(4) have "c \<noteq> CHR ''}''" by (auto simp: var_char_def)
    with assms(2) show "close_tag opts a (c # s) = None" by (rule close_tag_fails)
  qed (use assms in \<open>simp_all add: var_char_def\<close>)
  with assms(1,2) show ?thesis
    by (simp add: match_var_def starts_with_def close_tag_def)
qed

lemma match_partial_tag:
  assumes "tag_start opts = ''{''" and "tag_end opts = ''}''"
    and "p \<noteq> []" and "\<forall>c\<in>set p. not_brace c"
  shows "match_partial opts (''{>'' @ p @ ''}'' @ rest) = Some (p, rest)"
proof -
  have "scan_lazy not_brace (close_tag opts) [] (p @ CHR ''}'' # rest)
          = close_tag opts ([] @ p) (CHR ''}'' # rest)"
  proof (rule scan_lazy_run)
    fix a c s assume "c \<in> set p"
    with assms(4) have "c \<noteq> CHR ''}''" by (auto simp: not_brace_def)
    with assms(2) show "close_tag opts a (c # s) = None" by (rule close_tag_fails)
  qed (use assms in \<open>simp_all add: not_brace_def\<close>)
  with assms(1,2) show ?thesis
    by (simp add: match_partial_def starts_with_def close_tag_def)
qed

lemma match_block_tag:
  assumes "tag_start opts = ''{''" and "tag_end opts = ''}''"
    and "p \<noteq> []" and "\<forall>c\<in>set p. not_brace c"
  shows "match_block opts sigil (CHR ''{'' # sigil # p @ ''}'' @ s)
           = (case find_first (''{/'' @ p @ ''}'') s of
                Some (content, rest) \<Rightarrow> Some (p, content, rest) | None \<Rightarrow> None)"
proof -
  have "scan_lazy not_brace (close_block opts) [] (p @ CHR ''}'' # s)
          = close_block opts ([] @ p) (CHR ''}'' # s)"
  proof (rule scan_lazy_run)
    fix a c s assume "c \<in> set p"
    with assms(4) have "c \<noteq> CHR ''}''" by (auto simp: not_brace_def)
    with assms(2) show "close_block opts a (c # s) = None" by (rule close_block_fails)
  qed (use assms in \<open>simp_all add: not_brace_def\<close>)
  with assms(1,2) show ?thesis
    by (simp add: match_block_def starts_with_def close_block_def)
qed

lemma find_first_None_D:
  assumes "find_first pat (x # X) = None"
  shows "\<not> starts_with (x # X) pat" and "find_first pat X = None"
  using assms by (auto split: if_splits)

lemma find_first_after:
  assumes pat: "pat = h # q" and hq: "h \<notin> set q"
  shows "find_first pat X = None \<Longrightarrow> find_first pat (X @ pat @ rest) = Some (X, rest)"
proof (induction X)
  case Nil
  show ?case using pat by (cases rest) (simp_all add: starts_with_def)
next
  case (Cons x X)
  from find_first_None_D [OF Cons.prems]
  have ns: "\<not> starts_with (x # X) pat" and n: "find_first pat X = None" .
  have "\<not> starts_with ((x # X) @ pat @ rest) pat"
  proof
    assume sw: "starts_with ((x # X) @ pat @ rest) pat"
    show False
    proof (cases "length pat \<le> length (x # X)")
      case True
      then have "take (length pat) ((x # X) @ pat @ rest) = take (length pat) (x # X)"
        by (simp del: append_Cons)
      with sw have "take (length pat) (x # X) = pat" by (simp add: starts_with_def)
      with ns show False by (simp add: starts_with_def)
    next
      case False
      let ?k = "length (x # X)"
      from False have k: "?k < length pat" by simp
      from sw have "take (length pat) ((x # X) @ pat @ rest) ! ?k = pat ! ?k"
        by (simp add: starts_with_def)
      with k have "((x # X) @ pat @ rest) ! ?k = pat ! ?k" by simp
      then have "(pat @ rest) ! 0 = pat ! ?k" by (simp add: nth_append)
      with pat have "h = pat ! ?k" by simp
      moreover from k pat have "pat ! ?k \<in> set q" by (simp add: nth_Cons')
      ultimately show False using hq by simp
    qed
  qed
  with Cons.IH [OF n] show ?case by simp
qed

lemma match_block_exact:
  assumes "p \<noteq> []" and "\<forall>c\<in>set p. not_brace c"
    and "find_first (''{/'' @ p @ ''}'') X = None"
  shows "match_block default_options sigil (CHR ''{'' # sigil # p @ ''}'' @ X @ ''{/'' @ p @ ''}'' @ rest)
           = Some (p, X, rest)"
proof -
  let ?o = "default_options"
  have ts: "tag_start ?o = ''{''" and te: "tag_end ?o = ''}''"
    using tag_start_default [of "preserveUnmatched default_options"]
      tag_end_default [of "preserveUnmatched default_options"] by simp_all
  have "CHR ''{'' \<notin> set (''/'' @ p @ ''}'')"
    using assms(2) by (auto simp: not_brace_def)
  then have "find_first (''{/'' @ p @ ''}'') (X @ (''{/'' @ p @ ''}'') @ rest) = Some (X, rest)"
    using assms(3) by (intro find_first_after [where h = "CHR ''{''" and q = "''/'' @ p @ ''}''"]) simp_all
  with match_block_tag [OF ts te assms(1,2), of sigil "X @ ''{/'' @ p @ ''}'' @ rest"]
  show ?thesis by simp
qed

text \<open>Text without an opening brace holds no tag.\<close>

lemma no_match_without_brace:
  assumes "tag_start opts = ''{''" and "CHR ''{'' \<noteq> c"
  shows "match_var opts (c # cs) = None"
    and "match_partial opts (c # cs) = None"
    and "match_block opts sigil (c # cs) = None"
  using assms by (auto simp add: match_var_def match_partial_def match_block_def starts_with_def)

lemma processVariables_plain:
  "tag_start opts = ''{'' \<Longrightarrow> CHR ''{'' \<notin> set s \<Longrightarrow> processVariables opts s ctx = s"
  by (induction s) (simp_all add: no_match_without_brace)

lemma processConditionals_plain:
  "tag_start opts = ''{'' \<Longrightarrow> CHR ''{'' \<notin> set s \<Longrightarrow> processConditionals opts s ctx = s"
  by (induction s) (simp_all add: no_match_without_brace)

lemma processLoops_plain:
  "tag_start opts = ''{'' \<Longrightarrow> CHR ''{'' \<notin> set s \<Longrightarrow> processLoops opts s ctx = s"
  by (induction s) (simp_all add: no_match_without_brace)

lemma processPartials_plain:
  "tag_start (options eng) = ''{'' \<Longrightarrow> CHR ''{'' \<notin> set s \<Longrightarrow> processPartials eng rend s ctx = Some s"
  by (induction s) (simp_all add: no_match_without_brace)

subsection \<open>More fuel never changes a result\<close>

lemma processPartials_mono:
  assumes le: "\<And>t c r. rend t c = Some r \<Longrightarrow> rend' t c = Some r"
  shows "processPartials eng rend s ctx = Some r \<Longrightarrow> processPartials eng rend' s ctx = Some r"
proof (induction s arbitrary: r rule: length_induct)
  case (1 s)
  show ?case
  proof (cases s)
    case Nil
    with 1(2) show ?thesis by simp
  next
    case (Cons c cs)
    show ?thesis
    proof (cases "match_partial (options eng) (c # cs)")
      case None
      from 1(2) None Cons obtain r' where
        a: "processPartials eng rend cs ctx = Some r'" and r: "r = c # r'"
        by auto
      from 1(1) Cons a have "processPartials eng rend' cs ctx = Some r'" by simp
      with None Cons r show ?thesis by simp
    next
      case (Some a)
      then obtain name rest where m: "match_partial (options eng) (c # cs) = Some (name, rest)"
        by (cases a) auto
      let ?sub = "\<lambda>f. case fmlookup (partials eng) (trim name) of
                   None \<Rightarrow> Some (partial_not_found (trim name))
                 | Some partial \<Rightarrow>
                     if partial = [] then Some (partial_not_found (trim name))
                     else f partial ctx"
      from 1(2) m Cons obtain x y where
        x: "?sub rend = Some x" and y: "processPartials eng rend rest ctx = Some y"
        and r: "r = x @ y"
        by (auto split: option.splits)
      from x le have x': "?sub rend' = Some x"
        by (auto split: option.splits if_splits)
      from match_partial_shorter [OF m] Cons have "length rest < length s" by simp
      with 1(1) y have "processPartials eng rend' rest ctx = Some y" by blast
      with x' m Cons r show ?thesis by simp
    qed
  qed
qed

lemma render_Suc:
  "render eng n t ctx = Some r \<Longrightarrow> render eng (Suc n) t ctx = Some r"
proof (induction n arbitrary: t ctx r)
  case 0
  then show ?case by simp
next
  case (Suc n)
  let ?r2 = "if enableLoops (options eng)
             then processLoops (options eng)
                    (if enableConditionals (options eng)
                     then processConditionals (options eng) t ctx else t) ctx
             else (if enableConditionals (options eng)
                   then processConditionals (options eng) t ctx else t)"
  show ?case
  proof (cases "enablePartials (options eng)")
    case False
    with Suc.prems show ?thesis by (simp add: Let_def)
  next
    case True
    with Suc.prems obtain r3 where
      p: "processPartials eng (render eng n) ?r2 ctx = Some r3"
      and r: "r = processVariables (options eng) r3 ctx"
      by (auto simp: Let_def split: option.splits)
    have "processPartials eng (render eng (Suc n)) ?r2 ctx = Some r3"
      by (rule processPartials_mono [OF _ p]) (rule Suc.IH)
    with True r show ?thesis by (simp add: Let_def)
  qed
qed

lemma render_fuel:
  "render eng n t ctx = Some r \<Longrightarrow> render eng (n + k) t ctx = Some r"
  by (induction k) (simp_all add: render_Suc del: render.simps)

section \<open>Properties of the template engine\<close>

subsection \<open>Conditional blocks\<close>

lemma fmdom_empty_iff: "fmdom m = {||} \<longleftrightarrow> m = fmempty"
proof
  assume "fmdom m = {||}"
  then have "fmlookup m x = None" for x by (simp add: fmdom_notD)
  then show "m = fmempty" by (intro fmap_ext) simp
next
  assume "m = fmempty"
  then show "fmdom m = {||}" by simp
qed

lemma isTruthy_cases:
  "isTruthy v \<longleftrightarrow>
     (\<exists>xs. v = JArr xs \<and> xs \<noteq> []) \<or> (\<exists>m. v = JObj m \<and> m \<noteq> fmempty)
     \<or> ((\<forall>xs. v \<noteq> JArr xs) \<and> (\<forall>m. v \<noteq> JObj m) \<and> ToBoolean v)"
  by (cases v) (simp_all add: isTruthy_def fmdom_empty_iff)

lemma processConditionals_block:
  assumes "p \<noteq> []" and "\<forall>c\<in>set p. not_brace c" and "CHR ''{'' \<notin> set X"
  shows "processConditionals default_options (''{?'' @ p @ ''}'' @ X @ ''{/'' @ p @ ''}'') ctx
           = (if isTruthy (getNestedValue (JObj ctx) (trim p)) then X else [])"
proof -
  let ?o = "default_options"
  have ts: "tag_start ?o = ''{''" and te: "tag_end ?o = ''}''"
    using tag_start_default [of "preserveUnmatched default_options"]
      tag_end_default [of "preserveUnmatched default_options"] by simp_all
  have ff: "find_first (''{/'' @ p @ ''}'') (X @ (''{/'' @ p @ ''}'') @ []) = Some (X, [])"
    by (rule find_first_here [where h = "CHR ''{''" and q = "''/'' @ p @ ''}''"]) (use assms in simp_all)
  have m: "match_block ?o CHR ''?'' (CHR ''{'' # CHR ''?'' # p @ ''}'' @ (X @ ''{/'' @ p @ ''}''))
             = Some (p, X, [])"
    using match_block_tag [OF ts te assms(1,2), of "CHR ''?''" "X @ ''{/'' @ p @ ''}''"] ff
    by simp
  have "processConditionals ?o X ctx = X"
    by (rule processConditionals_plain [OF ts assms(3)])
  with m show ?thesis by simp
qed


lemma render_plain:
  assumes "processConditionals default_options t ctx = r" and "CHR ''{'' \<notin> set r"
  shows "render \<lparr>options = default_options, partials = ps\<rparr> (Suc n) t ctx = Some r"
proof -
  let ?o = "default_options"
  let ?eng = "\<lparr>options = default_options, partials = ps\<rparr>"
  have ts: "tag_start ?o = ''{''"
    using tag_start_default [of "preserveUnmatched default_options"] by simp
  have fl: "enableConditionals ?o" "enableLoops ?o" "enablePartials ?o"
    by (simp_all add: default_options_def)
  have l: "processLoops ?o r ctx = r" by (rule processLoops_plain [OF ts assms(2)])
  have p: "processPartials ?eng (render ?eng n) r ctx = Some r"
    by (rule processPartials_plain) (use ts assms(2) in simp_all)
  have v: "processVariables ?o r ctx = r" by (rule processVariables_plain [OF ts assms(2)])
  from assms(1) fl l p v show ?thesis by (simp add: Let_def)
qed

lemma lookup_flag:
  "getNestedValue (JObj (fmap_of_list [(''flag'', v)])) (trim ''flag'') = v"
  by (simp add: getNestedValue_def trim_def is_space_def)

text \<open>
  Claim C4. Rendering \<^verbatim>\<open>{?flag}X{/flag}\<close> gives the empty string when \<^verbatim>\<open>flag\<close> is the
  empty array or the number 0, and \<^verbatim>\<open>X\<close> when it is a one-element array or the string
  \<^verbatim>\<open>"0"\<close>. In general, for every path and every context, the content of a conditional
  block is kept exactly when the value the path resolves to is a non-empty array, a
  non-empty object (whatever its field values are), or a value that is neither an array
  nor an object and that \<^verbatim>\<open>!!\<close> coerces to true. For a content \<open>X\<close> without an
  opening brace the result of \<open>render\<close> is \<open>X\<close> or nothing, for every engine with the
  default options and every positive fuel; for any content \<open>Y\<close> that does not hold the
  closing tag, \<open>processConditionals\<close> keeps the processed \<open>Y\<close> or nothing.
\<close>

theorem conditional_truthiness:
  "(p \<noteq> [] \<and> (\<forall>c\<in>set p. not_brace c) \<and> CHR ''{'' \<notin> set X \<longrightarrow>
      render \<lparr>options = default_options, partials = ps\<rparr> (Suc n)
        (''{?'' @ p @ ''}'' @ X @ ''{/'' @ p @ ''}'') ctx
      = Some (if (let v = getNestedValue (JObj ctx) (trim p) in
                    (\<exists>xs. v = JArr xs \<and> xs \<noteq> [])
                  \<or> (\<exists>m. v = JObj m \<and> m \<noteq> fmempty)
                  \<or> ((\<forall>xs. v \<noteq> JArr xs) \<and> (\<forall>m. v \<noteq> JObj m) \<and> ToBoolean v))
               then X else []))
   \<and> (q \<noteq> [] \<and> (\<forall>c\<in>set q. not_brace c) \<and> find_first (''{/'' @ q @ ''}'') Y = None \<longrightarrow>
        processConditionals default_options (''{?'' @ q @ ''}'' @ Y @ ''{/'' @ q @ ''}'' @ rest) ctx
        = (if (let v = getNestedValue (JObj ctx) (trim q) in
                 (\<exists>xs. v = JArr xs \<and> xs \<noteq> [])
               \<or> (\<exists>m. v = JObj m \<and> m \<noteq> fmempty)
               \<or> ((\<forall>xs. v \<noteq> JArr xs) \<and> (\<forall>m. v \<noteq> JObj m) \<and> ToBoolean v))
            then processConditionals default_options Y ctx else [])
          @ processConditionals default_options rest ctx)
   \<and> render default_engine (Suc n) ''{?flag}X{/flag}'' (fmap_of_list [(''flag'', JArr [])]) = Some []
   \<and> render default_engine (Suc n) ''{?flag}X{/flag}'' (fmap_of_list [(''flag'', JNum 0)]) = Some []
   \<and> render default_engine (Suc n) ''{?flag}X{/flag}'' (fmap_of_list [(''flag'', JArr [JNum 1])]) = Some ''X''
   \<and> render default_engine (Suc n) ''{?flag}X{/flag}'' (fmap_of_list [(''flag'', JStr ''0'')]) = Some ''X''
   \<and> render default_engine (Suc n) ''{?flag}X{/flag}''
         (fmap_of_list [(''flag'', JObj (fmap_of_list [(''a'', JNum 0), (''b'', JNull)]))]) = Some ''X''"
proof -
  have gen: "render \<lparr>options = default_options, partials = ps\<rparr> (Suc n)
        (''{?'' @ p @ ''}'' @ X @ ''{/'' @ p @ ''}'') ctx
      = Some (if isTruthy (getNestedValue (JObj ctx) (trim p)) then X else [])"
    if "p \<noteq> []" "\<forall>c\<in>set p. not_brace c" "CHR ''{'' \<notin> set X" for p X ps ctx
  proof (rule render_plain)
    show "processConditionals default_options (''{?'' @ p @ ''}'' @ X @ ''{/'' @ p @ ''}'') ctx
            = (if isTruthy (getNestedValue (JObj ctx) (trim p)) then X else [])"
      by (rule processConditionals_block) fact+
    show "CHR ''{'' \<notin> set (if isTruthy (getNestedValue (JObj ctx) (trim p)) then X else [])"
      using that(3) by simp
  qed
  have flag: "render default_engine (Suc n) ''{?flag}X{/flag}'' (fmap_of_list [(''flag'', v)])
      = Some (if isTruthy v then ''X'' else [])" for v
  proof -
    have "render \<lparr>options = default_options, partials = fmempty\<rparr> (Suc n)
        (''{?'' @ ''flag'' @ ''}'' @ ''X'' @ ''{/'' @ ''flag'' @ ''}'') (fmap_of_list [(''flag'', v)])
      = Some (if isTruthy (getNestedValue (JObj (fmap_of_list [(''flag'', v)])) (trim ''flag''))
              then ''X'' else [])"
      by (rule gen) (simp_all add: not_brace_def)
    then show ?thesis by (simp only: lookup_flag default_engine_def append.simps)
  qed
  have t: "\<not> isTruthy (JArr [])" "\<not> isTruthy (JNum 0)" "isTruthy (JArr [JNum 1])"
    "isTruthy (JStr ''0'')" "isTruthy (JObj (fmap_of_list [(''a'', JNum 0), (''b'', JNull)]))"
    by (simp_all add: isTruthy_def)
  have blk: "processConditionals default_options (''{?'' @ q @ ''}'' @ Y @ ''{/'' @ q @ ''}'' @ rest) ctx
        = (if isTruthy (getNestedValue (JObj ctx) (trim q))
           then processConditionals default_options Y ctx else [])
          @ processConditionals default_options rest ctx"
    if "q \<noteq> []" "\<forall>c\<in>set q. not_brace c" "find_first (''{/'' @ q @ ''}'') Y = None"
  proof -
    have "match_block default_options CHR ''?''
            (CHR ''{'' # CHR ''?'' # q @ ''}'' @ Y @ ''{/'' @ q @ ''}'' @ rest) = Some (q, Y, rest)"
      by (rule match_block_exact) fact+
    then show ?thesis by simp
  qed
  show ?thesis
    using gen [of p X ps ctx, unfolded isTruthy_cases] blk [unfolded isTruthy_cases] flag t
    by (simp add: Let_def del: render.simps processConditionals.simps)
qed

theorem conditional_truthiness_witness:
  "render \<lparr>options = default_options, partials = fmempty\<rparr> (Suc 0)
     (''{?'' @ ''user.roles'' @ ''}'' @ ''admin'' @ ''{/'' @ ''user.roles'' @ ''}'')
     (fmap_of_list [(''user'', JObj (fmap_of_list [(''roles'', JArr [JStr ''a''])]))])
   = Some ''admin''"
proof -
  have v: "getNestedValue (JObj (fmap_of_list [(''user'', JObj (fmap_of_list [(''roles'', JArr [JStr ''a''])]))]))
             (trim ''user.roles'') = JArr [JStr ''a'']"
    by (simp add: getNestedValue_def trim_def is_space_def)
  have h: "''user.roles'' \<noteq> [] \<and> (\<forall>c\<in>set ''user.roles''. not_brace c) \<and> CHR ''{'' \<notin> set ''admin''"
    by (simp add: not_brace_def)
  from conditional_truthiness [of "''user.roles''" "''admin''" fmempty 0
      "fmap_of_list [(''user'', JObj (fmap_of_list [(''roles'', JArr [JStr ''a''])]))]"] h v
  show ?thesis by (simp add: Let_def del: render.simps)
qed

subsection \<open>Variable tags\<close>

lemma processVariables_pre:
  assumes "tag_start opts = ''{''" and "CHR ''{'' \<notin> set pre"
  shows "processVariables opts (pre @ s) ctx = pre @ processVariables opts s ctx"
  using assms(2) by (induction pre) (simp_all add: no_match_without_brace [OF assms(1)])

lemma processVariables_tag:
  assumes "p \<noteq> []" and "\<forall>c\<in>set p. var_char c" and "CHR ''{'' \<notin> set pre"
  shows "processVariables (default_options\<lparr>preserveUnmatched := keep\<rparr>)
           (pre @ ''{'' @ p @ ''}'' @ rest) ctx
         = pre
           @ (let val = getNestedValue (JObj ctx) (trim p) in
              if val = JUndefined \<or> val = JNull
              then (if keep then ''{'' @ p @ ''}'' else [])
              else js_String val)
           @ processVariables (default_options\<lparr>preserveUnmatched := keep\<rparr>) rest ctx"
proof -
  let ?o = "default_options\<lparr>preserveUnmatched := keep\<rparr>"
  have ts: "tag_start ?o = ''{''" and te: "tag_end ?o = ''}''"
    by (rule tag_start_default, rule tag_end_default)
  have m: "match_var ?o (CHR ''{'' # p @ ''}'' @ rest) = Some (p, rest)"
    using match_var_tag [OF ts te assms(1,2), of rest] by simp
  have "processVariables ?o (CHR ''{'' # p @ ''}'' @ rest) ctx
          = (let val = getNestedValue (JObj ctx) (trim p) in
              if val = JUndefined \<or> val = JNull
              then (if keep then ''{'' @ p @ ''}'' else [])
              else js_String val)
            @ processVariables ?o rest ctx"
    using m by (simp add: Let_def tag_start_default tag_end_default)
  then show ?thesis
    using processVariables_pre [OF ts assms(3), of "''{'' @ p @ ''}'' @ rest" ctx] by simp
qed

lemma render_one:
  "render eng 1 t ctx = Some r \<Longrightarrow> render eng (Suc n) t ctx = Some r"
  using render_fuel [of eng 1 t ctx r n] by simp

text \<open>
  Claim C10. A variable tag whose path resolves to \<^verbatim>\<open>undefined\<close> or \<^verbatim>\<open>null\<close> is
  replaced by the empty string in the default mode and is left as the literal tag text in
  the preserve-unmatched mode; every other resolved value is replaced by \<^verbatim>\<open>String(value)\<close>
  in both modes, so \<^verbatim>\<open>false\<close> prints \<^verbatim>\<open>false\<close>, \<^verbatim>\<open>0\<close> prints \<^verbatim>\<open>0\<close> and the empty
  string prints nothing. The tag is any \<^verbatim>\<open>{path}\<close> whose path is non-empty and has none of
  the characters \<^verbatim>\<open>#/?>{}\<close>, after any text without an opening brace.
\<close>

theorem variable_stringification:
  "(p \<noteq> [] \<and> (\<forall>c\<in>set p. var_char c) \<and> CHR ''{'' \<notin> set pre \<longrightarrow>
      processVariables (default_options\<lparr>preserveUnmatched := keep\<rparr>)
        (pre @ ''{'' @ p @ ''}'' @ rest) ctx
      = pre
        @ (case getNestedValue (JObj ctx) (trim p) of
             JUndefined \<Rightarrow> if keep then ''{'' @ p @ ''}'' else []
           | JNull \<Rightarrow> if keep then ''{'' @ p @ ''}'' else []
           | v \<Rightarrow> js_String v)
        @ processVariables (default_options\<lparr>preserveUnmatched := keep\<rparr>) rest ctx)
   \<and> js_String (JBool False) = ''false'' \<and> js_String (JNum 0) = ''0'' \<and> js_String (JStr []) = []
   \<and> render default_engine (Suc n) ''{flag}'' (fmap_of_list [(''flag'', JBool False)]) = Some ''false''
   \<and> render default_engine (Suc n) ''{flag}'' (fmap_of_list [(''flag'', JNum 0)]) = Some ''0''
   \<and> render default_engine (Suc n) ''[{flag}]'' (fmap_of_list [(''flag'', JStr [])]) = Some ''[]''
   \<and> render default_engine (Suc n) ''[{flag}]'' (fmap_of_list [(''flag'', JNull)]) = Some ''[]''
   \<and> render default_engine (Suc n) ''[{flag}]'' fmempty = Some ''[]''
   \<and> render (default_engine\<lparr>options := default_options\<lparr>preserveUnmatched := True\<rparr>\<rparr>) (Suc n)
         ''[{flag}]'' fmempty = Some ''[{flag}]''
   \<and> render (default_engine\<lparr>options := default_options\<lparr>preserveUnmatched := True\<rparr>\<rparr>) (Suc n)
         ''[{flag}]'' (fmap_of_list [(''flag'', JNull)]) = Some ''[{flag}]''
   \<and> render (default_engine\<lparr>options := default_options\<lparr>preserveUnmatched := True\<rparr>\<rparr>) (Suc n)
         ''[{flag}]'' (fmap_of_list [(''flag'', JBool False)]) = Some ''[false]''
   \<and> render (default_engine\<lparr>options := default_options\<lparr>preserveUnmatched := True\<rparr>\<rparr>) (Suc n)
         ''[{flag}]'' (fmap_of_list [(''flag'', JNum 0)]) = Some ''[0]''"
proof -
  have gen: "p \<noteq> [] \<and> (\<forall>c\<in>set p. var_char c) \<and> CHR ''{'' \<notin> set pre \<longrightarrow>
      processVariables (default_options\<lparr>preserveUnmatched := keep\<rparr>)
        (pre @ ''{'' @ p @ ''}'' @ rest) ctx
      = pre
        @ (case getNestedValue (JObj ctx) (trim p) of
             JUndefined \<Rightarrow> if keep then ''{'' @ p @ ''}'' else []
           | JNull \<Rightarrow> if keep then ''{'' @ p @ ''}'' else []
           | v \<Rightarrow> js_String v)
        @ processVariables (default_options\<lparr>preserveUnmatched := keep\<rparr>) rest ctx"
  proof (intro impI, elim conjE)
    assume a: "p \<noteq> []" "\<forall>c\<in>set p. var_char c" "CHR ''{'' \<notin> set pre"
    show "processVariables (default_options\<lparr>preserveUnmatched := keep\<rparr>)
        (pre @ ''{'' @ p @ ''}'' @ rest) ctx
      = pre
        @ (case getNestedValue (JObj ctx) (trim p) of
             JUndefined \<Rightarrow> if keep then ''{'' @ p @ ''}'' else []
           | JNull \<Rightarrow> if keep then ''{'' @ p @ ''}'' else []
           | v \<Rightarrow> js_String v)
        @ processVariables (default_options\<lparr>preserveUnmatched := keep\<rparr>) rest ctx"
      unfolding processVariables_tag [OF a]
      by (cases "getNestedValue (JObj ctx) (trim p)") (simp_all add: Let_def)
  qed
  have c1: "js_String (JBool False) = ''false'' \<and> js_String (JNum 0) = ''0'' \<and> js_String (JStr []) = []"
    by code_simp
  note one = render_one [where n = n]
  have c2: "render default_engine (Suc n) ''{flag}'' (fmap_of_list [(''flag'', JBool False)]) = Some ''false''"
    by (rule one) code_simp
  have c3: "render default_engine (Suc n) ''{flag}'' (fmap_of_list [(''flag'', JNum 0)]) = Some ''0''"
    by (rule one) code_simp
  have c4: "render default_engine (Suc n) ''[{flag}]'' (fmap_of_list [(''flag'', JStr [])]) = Some ''[]''"
    by (rule one) code_simp
  have c5: "render default_engine (Suc n) ''[{flag}]'' (fmap_of_list [(''flag'', JNull)]) = Some ''[]''"
    by (rule one) code_simp
  have c6: "render default_engine (Suc n) ''[{flag}]'' fmempty = Some ''[]''"
    by (rule one) code_simp
  have c7: "render (default_engine\<lparr>options := default_options\<lparr>preserveUnmatched := True\<rparr>\<rparr>) (Suc n)
         ''[{flag}]'' fmempty = Some ''[{flag}]''"
    by (rule one) code_simp
  have c8: "render (default_engine\<lparr>options := default_options\<lparr>preserveUnmatched := True\<rparr>\<rparr>) (Suc n)
         ''[{flag}]'' (fmap_of_list [(''flag'', JNull)]) = Some ''[{flag}]''"
    by (rule one) code_simp
  have c9: "render (default_engine\<lparr>options := default_options\<lparr>preserveUnmatched := True\<rparr>\<rparr>) (Suc n)
         ''[{flag}]'' (fmap_of_list [(''flag'', JBool False)]) = Some ''[false]''"
    by (rule one) code_simp
  have c10: "render (default_engine\<lparr>options := default_options\<lparr>preserveUnmatched := True\<rparr>\<rparr>) (Suc n)
         ''[{flag}]'' (fmap_of_list [(''flag'', JNum 0)]) = Some ''[0]''"
    by (rule one) code_simp
  from gen c1 c2 c3 c4 c5 c6 c7 c8 c9 c10 show ?thesis by (simp only: simp_thms)
qed


theorem variable_stringification_witness:
  "processVariables (default_options\<lparr>preserveUnmatched := False\<rparr>)
     (''Hi '' @ ''{'' @ '' user.name '' @ ''}'' @ ''!'')
     (fmap_of_list [(''user'', JObj (fmap_of_list [(''name'', JStr ''Ann'')]))])
   = ''Hi Ann!''"
proof -
  let ?ctx = "fmap_of_list [(''user'', JObj (fmap_of_list [(''name'', JStr ''Ann'')]))]"
  have v: "getNestedValue (JObj ?ctx) (trim '' user.name '') = JStr ''Ann''"
    by (simp add: getNestedValue_def trim_def is_space_def)
  have h: "'' user.name '' \<noteq> [] \<and> (\<forall>c\<in>set '' user.name ''. var_char c) \<and> CHR ''{'' \<notin> set ''Hi ''"
    by (simp add: var_char_def)
  have r: "processVariables (default_options\<lparr>preserveUnmatched := False\<rparr>) ''!'' ?ctx = ''!''"
    by (rule processVariables_plain) (simp_all add: tag_start_default)
  from variable_stringification [of "'' user.name ''" "''Hi ''" False "''!''" ?ctx] h
  have "processVariables (default_options\<lparr>preserveUnmatched := False\<rparr>)
          (''Hi '' @ ''{'' @ '' user.name '' @ ''}'' @ ''!'') ?ctx
        = ''Hi '' @ (case getNestedValue (JObj ?ctx) (trim '' user.name '') of
             JUndefined \<Rightarrow> if False then ''{'' @ '' user.name '' @ ''}'' else []
           | JNull \<Rightarrow> if False then ''{'' @ '' user.name '' @ ''}'' else []
           | v \<Rightarrow> js_String v)
          @ processVariables (default_options\<lparr>preserveUnmatched := False\<rparr>) ''!'' ?ctx"
    by blast
  then show ?thesis unfolding v r by simp
qed

subsection \<open>Loop blocks\<close>

lemma processLoops_pre:
  assumes "tag_start opts = ''{''" and "CHR ''{'' \<notin> set pre"
  shows "processLoops opts (pre @ s) ctx = pre @ processLoops opts s ctx"
  using assms(2) by (induction pre) (simp_all add: no_match_without_brace [OF assms(1)])

lemma show_nat_digits: "set (show_nat n) \<subseteq> set ''0123456789''"
proof (induction n rule: show_nat.induct)
  case (1 n)
  have d: "digit_char k \<in> set ''0123456789''" for k
    unfolding digit_char_def by (rule nth_mem) simp
  show ?case
  proof (cases "n < 10")
    case True
    then show ?thesis using d [of n] by (subst show_nat.simps) simp
  next
    case False
    with 1 d [of "n mod 10"] show ?thesis by (subst show_nat.simps) auto
  qed
qed

lemma show_nat_not_meta: "show_nat k \<noteq> CHR ''@'' # s"
proof
  assume "show_nat k = CHR ''@'' # s"
  then have "CHR ''@'' \<in> set (show_nat k)" by simp
  with show_nat_digits [of k] show False by auto
qed

lemma array_keys_not_meta:
  "CHR ''@'' # s |\<notin>| fmdom (fmap_of_list (zip (map show_nat [0..<n]) xs))"
proof
  assume "CHR ''@'' # s |\<in>| fmdom (fmap_of_list (zip (map show_nat [0..<n]) xs))"
  then have "CHR ''@'' # s \<in> fst ` set (zip (map show_nat [0..<n]) xs)"
    by (simp add: fmdom_fmap_of_list fset_of_list.rep_eq)
  then have "CHR ''@'' # s \<in> set (map show_nat [0..<n])"
    by (auto dest: set_zip_leftD)
  then obtain k where "show_nat k = CHR ''@'' # s" by auto
  then show False using show_nat_not_meta by blast
qed

lemma itemContext_meta:
  assumes "\<And>m. val ! i = JObj m \<Longrightarrow> ''@first'' |\<notin>| fmdom m \<and> ''@last'' |\<notin>| fmdom m"
  shows "fmlookup (itemContext ctx val i) ''@first'' = Some (JBool (i = 0))"
    and "fmlookup (itemContext ctx val i) ''@last'' = Some (JBool (int i = int (length val) - 1))"
proof -
  show "fmlookup (itemContext ctx val i) ''@first'' = Some (JBool (i = 0))"
  proof (cases "val ! i")
    case (JObj m)
    with assms [OF JObj] show ?thesis by (simp add: itemContext_def Let_def)
  next
    case (JArr xs)
    with array_keys_not_meta [of "''first''" "length xs" xs] show ?thesis
      by (simp add: itemContext_def Let_def)
  qed (simp_all add: itemContext_def Let_def)
  show "fmlookup (itemContext ctx val i) ''@last'' = Some (JBool (int i = int (length val) - 1))"
  proof (cases "val ! i")
    case (JObj m)
    with assms [OF JObj] show ?thesis by (simp add: itemContext_def Let_def)
  next
    case (JArr xs)
    with array_keys_not_meta [of "''last''" "length xs" xs] show ?thesis
      by (simp add: itemContext_def Let_def)
  qed (simp_all add: itemContext_def Let_def)
qed

lemma processLoops_non_array:
  assumes "p \<noteq> []" and "\<forall>c\<in>set p. not_brace c" and "CHR ''{'' \<notin> set pre"
    and "find_first (''{/'' @ p @ ''}'') X = None"
    and "\<forall>xs. getNestedValue (JObj ctx) (trim p) \<noteq> JArr xs"
  shows "processLoops default_options (pre @ ''{#'' @ p @ ''}'' @ X @ ''{/'' @ p @ ''}'' @ rest) ctx
           = pre @ processLoops default_options rest ctx"
proof -
  let ?o = "default_options"
  have ts: "tag_start ?o = ''{''"
    using tag_start_default [of "preserveUnmatched default_options"] by simp
  have m: "match_block ?o CHR ''#'' (CHR ''{'' # CHR ''#'' # p @ ''}'' @ X @ ''{/'' @ p @ ''}'' @ rest)
             = Some (p, X, rest)"
    by (rule match_block_exact) fact+
  have "processLoops ?o (CHR ''{'' # CHR ''#'' # p @ ''}'' @ X @ ''{/'' @ p @ ''}'' @ rest) ctx
          = processLoops ?o rest ctx"
    using m assms(5) by (cases "getNestedValue (JObj ctx) (trim p)") simp_all
  then show ?thesis
    using processLoops_pre [OF ts assms(3), of "''{#'' @ p @ ''}'' @ X @ ''{/'' @ p @ ''}'' @ rest" ctx]
    by simp
qed

text \<open>
  Claim C5, as amended. Rendering \<^verbatim>\<open>{#items}{name}{/items}\<close> with the two items
  \<^verbatim>\<open>{name:"a"}\<close> and \<^verbatim>\<open>{name:"b"}\<close> gives \<^verbatim>\<open>ab\<close>. In the context of iteration
  \<open>i\<close> over an array, \<^verbatim>\<open>@first\<close> is the boolean \<open>i = 0\<close> and \<^verbatim>\<open>@last\<close> is the
  boolean \<open>i = length - 1\<close>, unless the item is an object that has an own property of
  that name (\<^verbatim>\<open>Object.assign\<close> then puts the item's value in its place). A loop block
  whose path does not resolve to an array is replaced by the empty string, whatever its
  content.
\<close>

theorem loop_rendering:
  "render default_engine (Suc n) ''{#items}{name}{/items}''
     (fmap_of_list [(''items'', JArr [JObj (fmap_of_list [(''name'', JStr ''a'')]),
                                     JObj (fmap_of_list [(''name'', JStr ''b'')])])])
     = Some ''ab''
   \<and> (i < length val
        \<and> (\<forall>m. val ! i = JObj m \<longrightarrow> ''@first'' |\<notin>| fmdom m \<and> ''@last'' |\<notin>| fmdom m) \<longrightarrow>
        fmlookup (itemContext ctx val i) ''@first'' = Some (JBool (i = 0))
        \<and> fmlookup (itemContext ctx val i) ''@last'' = Some (JBool (int i = int (length val) - 1)))
   \<and> (p \<noteq> [] \<and> (\<forall>c\<in>set p. not_brace c) \<and> CHR ''{'' \<notin> set pre
        \<and> find_first (''{/'' @ p @ ''}'') X = None
        \<and> (\<forall>xs. getNestedValue (JObj ctx') (trim p) \<noteq> JArr xs) \<longrightarrow>
        processLoops default_options (pre @ ''{#'' @ p @ ''}'' @ X @ ''{/'' @ p @ ''}'' @ rest) ctx'
        = pre @ processLoops default_options rest ctx')
   \<and> render default_engine (Suc n) ''[{#items}{name}{/items}]''
        (fmap_of_list [(''items'', JStr ''ab''), (''name'', JStr ''c'')]) = Some ''[]''
   \<and> render default_engine (Suc n) ''[{#items}{name}{/items}]''
        (fmap_of_list [(''name'', JStr ''c'')]) = Some ''[]''
   \<and> render default_engine (Suc n) ''{#items}{@first}-{@last},{/items}''
        (fmap_of_list [(''items'', JArr [JNum 1, JNum 2, JNum 3])])
        = Some ''true-false,false-false,false-true,''"
proof -
  note one = render_one [where n = n]
  have a: "render default_engine (Suc n) ''{#items}{name}{/items}''
     (fmap_of_list [(''items'', JArr [JObj (fmap_of_list [(''name'', JStr ''a'')]),
                                     JObj (fmap_of_list [(''name'', JStr ''b'')])])])
     = Some ''ab''"
    by (rule one) code_simp
  have b: "i < length val
        \<and> (\<forall>m. val ! i = JObj m \<longrightarrow> ''@first'' |\<notin>| fmdom m \<and> ''@last'' |\<notin>| fmdom m) \<longrightarrow>
        fmlookup (itemContext ctx val i) ''@first'' = Some (JBool (i = 0))
        \<and> fmlookup (itemContext ctx val i) ''@last'' = Some (JBool (int i = int (length val) - 1))"
    using itemContext_meta [of val i ctx] by blast
  have c: "p \<noteq> [] \<and> (\<forall>c\<in>set p. not_brace c) \<and> CHR ''{'' \<notin> set pre
        \<and> find_first (''{/'' @ p @ ''}'') X = None
        \<and> (\<forall>xs. getNestedValue (JObj ctx') (trim p) \<noteq> JArr xs) \<longrightarrow>
        processLoops default_options (pre @ ''{#'' @ p @ ''}'' @ X @ ''{/'' @ p @ ''}'' @ rest) ctx'
        = pre @ processLoops default_options rest ctx'"
    using processLoops_non_array [of p pre X ctx' rest] by blast
  have d: "render default_engine (Suc n) ''[{#items}{name}{/items}]''
        (fmap_of_list [(''items'', JStr ''ab''), (''name'', JStr ''c'')]) = Some ''[]''"
    by (rule one) code_simp
  have e: "render default_engine (Suc n) ''[{#items}{name}{/items}]''
        (fmap_of_list [(''name'', JStr ''c'')]) = Some ''[]''"
    by (rule one) code_simp
  have f: "render default_engine (Suc n) ''{#items}{@first}-{@last},{/items}''
        (fmap_of_list [(''items'', JArr [JNum 1, JNum 2, JNum 3])])
        = Some ''true-false,false-false,false-true,''"
    by (rule one) code_simp
  from a b c d e f show ?thesis by (simp only: simp_thms)
qed

theorem loop_rendering_witness:
  "fmlookup (itemContext fmempty [JStr ''x'', JObj (fmap_of_list [(''name'', JStr ''b'')])] 1) ''@first''
     = Some (JBool False)
   \<and> fmlookup (itemContext fmempty [JStr ''x'', JObj (fmap_of_list [(''name'', JStr ''b'')])] 1) ''@last''
     = Some (JBool True)
   \<and> processLoops default_options
        (''<'' @ ''{#'' @ ''n'' @ ''}'' @ ''{name}'' @ ''{/'' @ ''n'' @ ''}'' @ ''>'')
        (fmap_of_list [(''n'', JNum 3)]) = ''<>''"
proof -
  let ?val = "[JStr ''x'', JObj (fmap_of_list [(''name'', JStr ''b'')])]"
  let ?ctx = "fmap_of_list [(''n'', JNum 3)]"
  have h1: "(1::nat) < length ?val
     \<and> (\<forall>m. ?val ! 1 = JObj m \<longrightarrow> ''@first'' |\<notin>| fmdom m \<and> ''@last'' |\<notin>| fmdom m)"
    by auto
  have h2: "''n'' \<noteq> [] \<and> (\<forall>c\<in>set ''n''. not_brace c) \<and> CHR ''{'' \<notin> set ''<''
        \<and> find_first (''{/'' @ ''n'' @ ''}'') ''{name}'' = None
        \<and> (\<forall>xs. getNestedValue (JObj ?ctx) (trim ''n'') \<noteq> JArr xs)"
    by (simp add: not_brace_def starts_with_def getNestedValue_def trim_def is_space_def)
  have r: "processLoops default_options ''>'' ?ctx = ''>''"
    by (rule processLoops_plain) (simp_all add: tag_start_def default_options_def)
  from loop_rendering [of 0 1 ?val fmempty "''n''" "''<''" "''{name}''" ?ctx "''>''"] h1 h2
  have "fmlookup (itemContext fmempty ?val 1) ''@first'' = Some (JBool (1 = (0::nat)))
        \<and> fmlookup (itemContext fmempty ?val 1) ''@last'' = Some (JBool (int 1 = int (length ?val) - 1))
        \<and> processLoops default_options
            (''<'' @ ''{#'' @ ''n'' @ ''}'' @ ''{name}'' @ ''{/'' @ ''n'' @ ''}'' @ ''>'') ?ctx
          = ''<'' @ processLoops default_options ''>'' ?ctx"
    by blast
  then show ?thesis unfolding r by simp
qed

text \<open>
  The claim as first stated says \<^verbatim>\<open>@first\<close> and \<^verbatim>\<open>@last\<close> are true at index 0 of a
  one-element array. An item that carries the two names itself decides what the template
  sees.
\<close>

theorem loop_metadata_shadowed_counterexample:
  "render default_engine 1 ''{#items}{@first}/{@last}{/items}''
     (fmap_of_list [(''items'',
        JArr [JObj (fmap_of_list [(''@first'', JBool False), (''@last'', JBool False)])])])
   = Some ''false/false''"
  by code_simp

subsection \<open>The order of the passes\<close>

lemma find_first_plain: "h \<notin> set Y \<Longrightarrow> find_first (h # q) Y = None"
  by (induction Y) (auto simp: starts_with_def)

lemma no_match_other_sigil:
  "tag_start opts = ''{'' \<Longrightarrow> c \<noteq> sigil \<Longrightarrow> match_block opts sigil (CHR ''{'' # c # s) = None"
  by (simp add: match_block_def starts_with_def)

lemma processConditionals_pre:
  assumes "tag_start opts = ''{''" and "CHR ''{'' \<notin> set pre"
  shows "processConditionals opts (pre @ s) ctx = pre @ processConditionals opts s ctx"
  using assms(2) by (induction pre) (simp_all add: no_match_without_brace [OF assms(1)])

text \<open>A conditional block inside a loop body is decided before the loop is expanded, against
  the context of the whole template.\<close>

lemma conditional_inside_loop:
  assumes p: "p \<noteq> []" "\<forall>c\<in>set p. not_brace c"
    and q: "q \<noteq> []" "\<forall>c\<in>set q. not_brace c"
    and X: "CHR ''{'' \<notin> set X"
    and val: "getNestedValue (JObj ctx) (trim p) = JArr val"
  shows "render \<lparr>options = default_options, partials = ps\<rparr> (Suc n)
           (''{#'' @ p @ ''}'' @ ''{?'' @ q @ ''}'' @ X @ ''{/'' @ q @ ''}'' @ ''{/'' @ p @ ''}'') ctx
         = Some (if isTruthy (getNestedValue (JObj ctx) (trim q))
                 then concat (replicate (length val) X) else [])"
proof -
  let ?o = "default_options"
  let ?eng = "\<lparr>options = default_options, partials = ps\<rparr>"
  let ?Y = "if isTruthy (getNestedValue (JObj ctx) (trim q)) then X else []"
  have ts: "tag_start ?o = ''{''" and te: "tag_end ?o = ''}''"
    using tag_start_default [of "preserveUnmatched default_options"]
      tag_end_default [of "preserveUnmatched default_options"] by simp_all
  have fl: "enableConditionals ?o" "enableLoops ?o" "enablePartials ?o"
    by (simp_all add: default_options_def)
  have Y: "CHR ''{'' \<notin> set ?Y" using X by simp
  have pp: "CHR ''{'' \<notin> set (''#'' @ p @ ''}'')" "CHR ''{'' \<notin> set (''/'' @ p @ ''}'')"
    using p(2) by (auto simp: not_brace_def)
  \<comment> \<open>the conditional phase\<close>
  have m: "match_block ?o CHR ''?'' (CHR ''{'' # CHR ''?'' # q @ ''}'' @ X @ ''{/'' @ q @ ''}'' @ (''{/'' @ p @ ''}''))
             = Some (q, X, ''{/'' @ p @ ''}'')"
    by (rule match_block_exact [OF q]) (use find_first_plain [OF X, of "''/'' @ q @ ''}''"] in simp)
  have tail: "processConditionals ?o (''{/'' @ p @ ''}'') ctx = ''{/'' @ p @ ''}''"
  proof -
    have "processConditionals ?o (CHR ''{'' # CHR ''/'' # p @ ''}'') ctx
            = CHR ''{'' # processConditionals ?o (CHR ''/'' # p @ ''}'') ctx"
      by (simp add: no_match_other_sigil [OF ts])
    also have "processConditionals ?o (CHR ''/'' # p @ ''}'') ctx = CHR ''/'' # p @ ''}''"
      using processConditionals_plain [OF ts pp(2), of ctx] by simp
    finally show ?thesis by simp
  qed
  have inner: "processConditionals ?o (''{?'' @ q @ ''}'' @ X @ ''{/'' @ q @ ''}'' @ (''{/'' @ p @ ''}'')) ctx
                 = ?Y @ ''{/'' @ p @ ''}''"
    using m tail processConditionals_plain [OF ts X, of ctx] by simp
  have head: "processConditionals ?o (CHR ''{'' # (''#'' @ p @ ''}'') @ s) ctx
                = CHR ''{'' # (''#'' @ p @ ''}'') @ processConditionals ?o s ctx" for s
  proof -
    have "processConditionals ?o (CHR ''{'' # CHR ''#'' # (p @ ''}'') @ s) ctx
            = CHR ''{'' # processConditionals ?o (CHR ''#'' # (p @ ''}'') @ s) ctx"
      by (simp add: no_match_other_sigil [OF ts])
    then show ?thesis
      using processConditionals_pre [OF ts pp(1), of s ctx] by simp
  qed
  have r1: "processConditionals ?o
              (''{#'' @ p @ ''}'' @ ''{?'' @ q @ ''}'' @ X @ ''{/'' @ q @ ''}'' @ ''{/'' @ p @ ''}'') ctx
            = ''{#'' @ p @ ''}'' @ ?Y @ ''{/'' @ p @ ''}'' @ []"
    using head [of "''{?'' @ q @ ''}'' @ X @ ''{/'' @ q @ ''}'' @ (''{/'' @ p @ ''}'')"] inner
    by simp
  \<comment> \<open>the loop phase\<close>
  have ml: "match_block ?o CHR ''#'' (CHR ''{'' # CHR ''#'' # p @ ''}'' @ ?Y @ ''{/'' @ p @ ''}'' @ [])
              = Some (p, ?Y, [])"
    by (rule match_block_exact [OF p]) (use find_first_plain [OF Y, of "''/'' @ p @ ''}''"] in simp)
  have item: "processVariables ?o (processLoops ?o (processConditionals ?o ?Y c) c) c = ?Y" for c
    using processConditionals_plain [OF ts Y] processLoops_plain [OF ts Y]
      processVariables_plain [OF ts Y] by simp
  have r2: "processLoops ?o (''{#'' @ p @ ''}'' @ ?Y @ ''{/'' @ p @ ''}'' @ []) ctx
              = concat (replicate (length val) ?Y)"
  proof -
    have "processLoops ?o (CHR ''{'' # CHR ''#'' # p @ ''}'' @ ?Y @ ''{/'' @ p @ ''}'' @ []) ctx
            = concat (map (\<lambda>index. ?Y) [0..<length val])"
      by (subst processLoops.simps(2))
        (simp only: ml val option.case prod.case jsval.case item processLoops.simps(1),
         simp only: append_Nil2)
    then show ?thesis by (simp add: map_replicate_const)
  qed
  let ?R = "concat (replicate (length val) ?Y)"
  have R: "CHR ''{'' \<notin> set ?R" using Y by auto
  have r3: "processPartials ?eng (render ?eng n) ?R ctx = Some ?R"
    by (rule processPartials_plain) (use ts R in simp_all)
  have r4: "processVariables ?o ?R ctx = ?R" by (rule processVariables_plain [OF ts R])
  have "render ?eng (Suc n)
          (''{#'' @ p @ ''}'' @ ''{?'' @ q @ ''}'' @ X @ ''{/'' @ q @ ''}'' @ ''{/'' @ p @ ''}'') ctx
        = Some ?R"
    by (simp only: render.simps Let_def fl if_True r1 r2 r3 r4 option.case
          TemplateEngine.simps)
  then show ?thesis by (simp split: if_splits)
qed

text \<open>
  Claim C1. With its three block features enabled (the default), \<open>render\<close> is the
  composition of four passes in a fixed order: \<open>processConditionals\<close> on the template with
  the outer context, \<open>processLoops\<close> on its result, \<open>processPartials\<close> on that, and
  \<open>processVariables\<close> last. A conditional block is replaced by its content, itself passed
  through \<open>processConditionals\<close> with the same context, or by nothing. A loop block over an
  array is replaced by the concatenation, over the indices, of its content passed through
  \<open>processConditionals\<close>, \<open>processLoops\<close> and \<open>processVariables\<close> in the context of that
  item. A tag of a registered partial is replaced by \<open>render\<close> of the partial with the same
  context. The order shows in the last part: a conditional block inside a loop body is
  decided once, by the outer context, before the loop is expanded.
\<close>

theorem render_processing_order:
  "(enableConditionals (options eng) \<and> enableLoops (options eng) \<and> enablePartials (options eng) \<longrightarrow>
      render eng (Suc n) t ctx =
        (case processPartials eng (render eng n)
                (processLoops (options eng) (processConditionals (options eng) t ctx) ctx) ctx of
           None \<Rightarrow> None
         | Some r \<Rightarrow> Some (processVariables (options eng) r ctx)))
   \<and> (match_block (options eng) CHR ''?'' (c1 # cs1) = Some (path1, content1, rest1) \<longrightarrow>
        processConditionals (options eng) (c1 # cs1) ctx =
          (if isTruthy (getNestedValue (JObj ctx) (trim path1))
           then processConditionals (options eng) content1 ctx else [])
          @ processConditionals (options eng) rest1 ctx)
   \<and> (match_block (options eng) CHR ''#'' (c2 # cs2) = Some (path2, content2, rest2)
        \<and> getNestedValue (JObj ctx) (trim path2) = JArr val \<longrightarrow>
        processLoops (options eng) (c2 # cs2) ctx =
          concat (map (\<lambda>index.
             processVariables (options eng)
               (processLoops (options eng)
                  (processConditionals (options eng) content2 (itemContext ctx val index))
                  (itemContext ctx val index))
               (itemContext ctx val index)) [0..<length val])
          @ processLoops (options eng) rest2 ctx)
   \<and> (match_partial (options eng) (c3 # cs3) = Some (name, rest3)
        \<and> fmlookup (partials eng) (trim name) = Some body \<and> body \<noteq> [] \<longrightarrow>
        processPartials eng (render eng n) (c3 # cs3) ctx =
          (case render eng n body ctx of
             None \<Rightarrow> None
           | Some r \<Rightarrow> map_option ((@) r) (processPartials eng (render eng n) rest3 ctx)))
   \<and> (p \<noteq> [] \<and> (\<forall>c\<in>set p. not_brace c) \<and> q \<noteq> [] \<and> (\<forall>c\<in>set q. not_brace c)
        \<and> CHR ''{'' \<notin> set X \<and> getNestedValue (JObj ctx) (trim p) = JArr items \<longrightarrow>
        render \<lparr>options = default_options, partials = ps\<rparr> (Suc n)
          (''{#'' @ p @ ''}'' @ ''{?'' @ q @ ''}'' @ X @ ''{/'' @ q @ ''}'' @ ''{/'' @ p @ ''}'') ctx
        = Some (if isTruthy (getNestedValue (JObj ctx) (trim q))
                then concat (replicate (length items) X) else []))"
proof (intro conjI impI)
  assume "enableConditionals (options eng) \<and> enableLoops (options eng) \<and> enablePartials (options eng)"
  then show "render eng (Suc n) t ctx =
        (case processPartials eng (render eng n)
                (processLoops (options eng) (processConditionals (options eng) t ctx) ctx) ctx of
           None \<Rightarrow> None
         | Some r \<Rightarrow> Some (processVariables (options eng) r ctx))"
    by (simp add: Let_def)
next
  assume "match_block (options eng) CHR ''?'' (c1 # cs1) = Some (path1, content1, rest1)"
  then show "processConditionals (options eng) (c1 # cs1) ctx =
          (if isTruthy (getNestedValue (JObj ctx) (trim path1))
           then processConditionals (options eng) content1 ctx else [])
          @ processConditionals (options eng) rest1 ctx"
    by simp
next
  assume "match_block (options eng) CHR ''#'' (c2 # cs2) = Some (path2, content2, rest2)
        \<and> getNestedValue (JObj ctx) (trim path2) = JArr val"
  then show "processLoops (options eng) (c2 # cs2) ctx =
          concat (map (\<lambda>index.
             processVariables (options eng)
               (processLoops (options eng)
                  (processConditionals (options eng) content2 (itemContext ctx val index))
                  (itemContext ctx val index))
               (itemContext ctx val index)) [0..<length val])
          @ processLoops (options eng) rest2 ctx"
    by simp
next
  assume "match_partial (options eng) (c3 # cs3) = Some (name, rest3)
        \<and> fmlookup (partials eng) (trim name) = Some body \<and> body \<noteq> []"
  then show "processPartials eng (render eng n) (c3 # cs3) ctx =
          (case render eng n body ctx of
             None \<Rightarrow> None
           | Some r \<Rightarrow> map_option ((@) r) (processPartials eng (render eng n) rest3 ctx))"
    by simp
next
  assume "p \<noteq> [] \<and> (\<forall>c\<in>set p. not_brace c) \<and> q \<noteq> [] \<and> (\<forall>c\<in>set q. not_brace c)
        \<and> CHR ''{'' \<notin> set X \<and> getNestedValue (JObj ctx) (trim p) = JArr items"
  then show "render \<lparr>options = default_options, partials = ps\<rparr> (Suc n)
          (''{#'' @ p @ ''}'' @ ''{?'' @ q @ ''}'' @ X @ ''{/'' @ q @ ''}'' @ ''{/'' @ p @ ''}'') ctx
        = Some (if isTruthy (getNestedValue (JObj ctx) (trim q))
                then concat (replicate (length items) X) else [])"
    using conditional_inside_loop [of p q X ctx items ps n] by blast
qed

theorem render_processing_order_witness:
  "render example_engine (Suc 1) ''{?on}[{#items}{name}{?off}!{/off}{/items}]{/on}<{>p}>'' example_context
     = Some ''[a]<12z>''
   \<and> processConditionals (options example_engine) ''{?on}{#xs}{this}{/xs}{/on}.'' example_context
     = ''{#xs}{this}{/xs}.''
   \<and> processLoops (options example_engine) ''{#xs}{this}{/xs}.'' example_context = ''12.''
   \<and> processPartials example_engine (render example_engine 1) ''{>p}.'' example_context
     = Some ''12z.''
   \<and> render \<lparr>options = default_options, partials = fmempty\<rparr> (Suc 1)
       (''{#'' @ ''items'' @ ''}'' @ ''{?'' @ ''off'' @ ''}'' @ ''!'' @ ''{/'' @ ''off'' @ ''}'' @ ''{/'' @ ''items'' @ ''}'')
       example_context = Some []"
proof -
  let ?e = example_engine and ?c = example_context
  have fl: "enableConditionals (options ?e) \<and> enableLoops (options ?e) \<and> enablePartials (options ?e)"
    by (simp add: example_engine_def registerPartial_def default_engine_def default_options_def)
  have m1: "match_block (options ?e) CHR ''?'' (CHR ''{'' # ''?on}{#xs}{this}{/xs}{/on}.'')
              = Some (''on'', ''{#xs}{this}{/xs}'', ''.'')"
    by code_simp
  have m2: "match_block (options ?e) CHR ''#'' (CHR ''{'' # ''#xs}{this}{/xs}.'')
              = Some (''xs'', ''{this}'', ''.'')
            \<and> getNestedValue (JObj ?c) (trim ''xs'') = JArr [JNum 1, JNum 2]"
    by code_simp
  have m3: "match_partial (options ?e) (CHR ''{'' # ''>p}.'') = Some (''p'', ''.'')
            \<and> fmlookup (partials ?e) (trim ''p'') = Some ''{#xs}{this}{/xs}{name}''
            \<and> ''{#xs}{this}{/xs}{name}'' \<noteq> []"
    by code_simp
  note t = render_processing_order [of ?e 1 "''{?on}[{#items}{name}{?off}!{/off}{/items}]{/on}<{>p}>''" ?c
      "CHR ''{''" "''?on}{#xs}{this}{/xs}{/on}.''" "''on''" "''{#xs}{this}{/xs}''" "''.''"
      "CHR ''{''" "''#xs}{this}{/xs}.''" "''xs''" "''{this}''" "''.''" "[JNum 1, JNum 2]"
      "CHR ''{''" "''>p}.''" "''p''" "''.''" "''{#xs}{this}{/xs}{name}''"
      "''items''" "''off''" "''!''"
      "[JObj (fmap_of_list [(''name'', JStr ''a''), (''off'', JBool True)])]" fmempty]
  have m5: "''items'' \<noteq> [] \<and> (\<forall>c\<in>set ''items''. not_brace c) \<and> ''off'' \<noteq> []
        \<and> (\<forall>c\<in>set ''off''. not_brace c) \<and> CHR ''{'' \<notin> set ''!''
        \<and> getNestedValue (JObj ?c) (trim ''items'')
            = JArr [JObj (fmap_of_list [(''name'', JStr ''a''), (''off'', JBool True)])]"
    by (simp add: not_brace_def getNestedValue_def trim_def is_space_def example_context_def)
  have v5: "\<not> isTruthy (getNestedValue (JObj ?c) (trim ''off''))"
    by (simp add: getNestedValue_def trim_def is_space_def example_context_def isTruthy_def)
  have e: "render \<lparr>options = default_options, partials = fmempty\<rparr> (Suc 1)
       (''{#'' @ ''items'' @ ''}'' @ ''{?'' @ ''off'' @ ''}'' @ ''!'' @ ''{/'' @ ''off'' @ ''}'' @ ''{/'' @ ''items'' @ ''}'')
       ?c = Some []"
    using t [THEN conjunct2, THEN conjunct2, THEN conjunct2, THEN conjunct2, THEN mp, OF m5]
    by (simp only: v5 if_False)
  have a: "render ?e (Suc 1) ''{?on}[{#items}{name}{?off}!{/off}{/items}]{/on}<{>p}>'' ?c
        = (case processPartials ?e (render ?e 1)
                (processLoops (options ?e) (processConditionals (options ?e)
                    ''{?on}[{#items}{name}{?off}!{/off}{/items}]{/on}<{>p}>'' ?c) ?c) ?c of
           None \<Rightarrow> None
         | Some r \<Rightarrow> Some (processVariables (options ?e) r ?c))"
    by (rule t [THEN conjunct1, THEN mp, OF fl])
  have a': "(case processPartials ?e (render ?e 1)
                (processLoops (options ?e) (processConditionals (options ?e)
                    ''{?on}[{#items}{name}{?off}!{/off}{/items}]{/on}<{>p}>'' ?c) ?c) ?c of
           None \<Rightarrow> None
         | Some r \<Rightarrow> Some (processVariables (options ?e) r ?c)) = Some ''[a]<12z>''"
    by code_simp
  have b: "processConditionals (options ?e) ''{?on}{#xs}{this}{/xs}{/on}.'' ?c = ''{#xs}{this}{/xs}.''"
  proof -
    have "(if isTruthy (getNestedValue (JObj ?c) (trim ''on''))
           then processConditionals (options ?e) ''{#xs}{this}{/xs}'' ?c else [])
          @ processConditionals (options ?e) ''.'' ?c = ''{#xs}{this}{/xs}.''"
      by code_simp
    with t [THEN conjunct2, THEN conjunct1, THEN mp, OF m1] show ?thesis by (simp only:)
  qed
  have c: "processLoops (options ?e) ''{#xs}{this}{/xs}.'' ?c = ''12.''"
  proof -
    have "concat (map (\<lambda>index.
             processVariables (options ?e)
               (processLoops (options ?e)
                  (processConditionals (options ?e) ''{this}'' (itemContext ?c [JNum 1, JNum 2] index))
                  (itemContext ?c [JNum 1, JNum 2] index))
               (itemContext ?c [JNum 1, JNum 2] index)) [0..<length [JNum 1, JNum 2]])
          @ processLoops (options ?e) ''.'' ?c = ''12.''"
      by code_simp
    with t [THEN conjunct2, THEN conjunct2, THEN conjunct1, THEN mp, OF m2]
    show ?thesis by (simp only:)
  qed
  have d: "processPartials ?e (render ?e 1) ''{>p}.'' ?c = Some ''12z.''"
  proof -
    have "(case render ?e 1 ''{#xs}{this}{/xs}{name}'' ?c of
             None \<Rightarrow> None
           | Some r \<Rightarrow> map_option ((@) r) (processPartials ?e (render ?e 1) ''.'' ?c))
          = Some ''12z.''"
      by code_simp
    with t [THEN conjunct2, THEN conjunct2, THEN conjunct2, THEN conjunct1, THEN mp, OF m3]
    show ?thesis by (simp only:)
  qed
  from a a' b c d e show ?thesis by (simp only: simp_thms)
qed

section \<open>Model projections of the generators\<close>

record ApiOperation =
  operationId :: string
  method' :: string
  path :: string
  summary :: "string option"
  description :: "string option"
  tags :: "string list option"
  parameters :: "jsval list option"
  requestBody :: "jsval option"
  responses :: "(string, jsval) fmap option"

subsection \<open>TypeScriptTypesGenerator.filterSchemas\<close>

text \<open>The schema table is a \<^verbatim>\<open>Record<string, SchemaObject>\<close>; a list parameter that is
  not supplied is \<open>None\<close>. \<^verbatim>\<open>if (schemas[schemaName])\<close> is the truthiness of the entry.\<close>

definition filterSchemas ::
  "(string, jsval) fmap \<Rightarrow> string list option \<Rightarrow> string list option \<Rightarrow> (string, jsval) fmap" where
  "filterSchemas schemas includeSchemas excludeSchemas =
     (case includeSchemas of
        Some inc \<Rightarrow>
          if length inc > 0
          then fold (\<lambda>schemaName result.
                       if ToBoolean (js_get (JObj schemas) schemaName)
                       then fmupd schemaName (js_get (JObj schemas) schemaName) result
                       else result) inc fmempty
          else (case excludeSchemas of
                  Some exc \<Rightarrow>
                    if length exc > 0
                    then fold (\<lambda>schemaName result. fmdrop schemaName result) exc schemas
                    else schemas
                | None \<Rightarrow> schemas)
      | None \<Rightarrow>
          (case excludeSchemas of
             Some exc \<Rightarrow>
               if length exc > 0
               then fold (\<lambda>schemaName result. fmdrop schemaName result) exc schemas
               else schemas
           | None \<Rightarrow> schemas))"

subsection \<open>ApiClientGenerator.filterOperations\<close>

text \<open>\<^verbatim>\<open>op.tags && op.tags.some(tag => list.includes(tag))\<close>\<close>

definition has_tag_in :: "string list \<Rightarrow> ApiOperation \<Rightarrow> bool" where
  "has_tag_in list op =
     (case tags op of None \<Rightarrow> False | Some ts \<Rightarrow> list_ex (\<lambda>tag. tag \<in> set list) ts)"

definition filterOperations ::
  "ApiOperation list \<Rightarrow> string list option \<Rightarrow> string list option \<Rightarrow> ApiOperation list" where
  "filterOperations operations includeTags excludeTags =
     (case includeTags of
        Some inc \<Rightarrow>
          if length inc > 0 then filter (has_tag_in inc) operations
          else (case excludeTags of
                  Some exc \<Rightarrow>
                    if length exc > 0 then filter (\<lambda>op. \<not> has_tag_in exc op) operations
                    else operations
                | None \<Rightarrow> operations)
      | None \<Rightarrow>
          (case excludeTags of
             Some exc \<Rightarrow>
               if length exc > 0 then filter (\<lambda>op. \<not> has_tag_in exc op) operations
               else operations
           | None \<Rightarrow> operations))"

subsection \<open>ApiClientGenerator.groupOperations\<close>













definition example_schemas :: "(string, jsval) fmap" where
  "example_schemas =
     fmap_of_list
       [(''Pet'', JObj (fmap_of_list [(''type'', JStr ''object'')])),
        (''Owner'', JObj (fmap_of_list [(''type'', JStr ''object'')]))]"

definition example_operation :: "string \<Rightarrow> string list option \<Rightarrow> ApiOperation" where
  "example_operation oid ts =
     \<lparr> operationId = oid, method' = ''get'', path = ''/pets/{id}'', summary = None,
       description = None, tags = ts, parameters = None, requestBody = None,
       responses = None \<rparr>"

lemma filterSchemas_include:
  "inc \<noteq> [] \<Longrightarrow> filterSchemas schemas (Some inc) exc = filterSchemas schemas (Some inc) None"
  by (simp add: filterSchemas_def)

lemma include_fold_lookup:
  "fmlookup (fold (\<lambda>schemaName result.
                       if ToBoolean (js_get (JObj schemas) schemaName)
                       then fmupd schemaName (js_get (JObj schemas) schemaName) result
                       else result) inc acc) k
     = (if k \<in> set inc \<and> ToBoolean (js_get (JObj schemas) k)
        then fmlookup schemas k else fmlookup acc k)"
proof (induction inc arbitrary: acc)
  case Nil
  then show ?case by simp
next
  case (Cons a inc)
  have v: "ToBoolean (js_get (JObj schemas) a) \<Longrightarrow> fmlookup schemas a = Some (js_get (JObj schemas) a)"
    by (cases "fmlookup schemas a") auto
  show ?case
    using v by (auto simp: Cons.IH simp del: js_get.simps)
qed

lemma exclude_fold_lookup:
  "fmlookup (fold (\<lambda>schemaName result. fmdrop schemaName result) exc acc) k
     = (if k \<in> set exc then None else fmlookup acc k)"
  by (induction exc arbitrary: acc) auto

lemma has_tag_in_iff:
  "has_tag_in list op \<longleftrightarrow> (\<exists>ts. tags op = Some ts \<and> set ts \<inter> set list \<noteq> {})"
  by (cases "tags op") (auto simp: has_tag_in_def list_ex_iff)


text \<open>
  Claim C6. For the schema table and for the operation list alike: when the include list
  is non-empty, the result is the same whatever exclude list is given, namely the result of
  the include list alone (the schema entries whose name is listed, the operations that
  carry a listed tag); when no list is supplied, or the supplied lists are empty, the
  filter returns its input.
\<close>

theorem include_list_precedence:
  "(inc \<noteq> [] \<longrightarrow>
      filterSchemas schemas (Some inc) exc = filterSchemas schemas (Some inc) None
      \<and> (\<forall>k. fmlookup (filterSchemas schemas (Some inc) exc) k
             = (if k \<in> set inc \<and> ToBoolean (js_get (JObj schemas) k)
                then fmlookup schemas k else None))
      \<and> filterOperations ops (Some inc) exc' = filterOperations ops (Some inc) None
      \<and> filterOperations ops (Some inc) exc'
          = filter (\<lambda>op. \<exists>ts. tags op = Some ts \<and> set ts \<inter> set inc \<noteq> {}) ops)
   \<and> filterSchemas schemas None None = schemas
   \<and> filterSchemas schemas (Some []) (Some []) = schemas
   \<and> filterSchemas schemas None (Some []) = schemas
   \<and> filterSchemas schemas (Some []) None = schemas
   \<and> filterOperations ops None None = ops
   \<and> filterOperations ops (Some []) (Some []) = ops
   \<and> filterOperations ops None (Some []) = ops
   \<and> filterOperations ops (Some []) None = ops"
proof -
  have inc: "filterSchemas schemas (Some inc) exc = filterSchemas schemas (Some inc) None
      \<and> (\<forall>k. fmlookup (filterSchemas schemas (Some inc) exc) k
             = (if k \<in> set inc \<and> ToBoolean (js_get (JObj schemas) k)
                then fmlookup schemas k else None))
      \<and> filterOperations ops (Some inc) exc' = filterOperations ops (Some inc) None
      \<and> filterOperations ops (Some inc) exc'
          = filter (\<lambda>op. \<exists>ts. tags op = Some ts \<and> set ts \<inter> set inc \<noteq> {}) ops"
    if ne: "inc \<noteq> []"
  proof (intro conjI allI)
    show "filterSchemas schemas (Some inc) exc = filterSchemas schemas (Some inc) None"
      using ne by (rule filterSchemas_include)
    show "fmlookup (filterSchemas schemas (Some inc) exc) k
             = (if k \<in> set inc \<and> ToBoolean (js_get (JObj schemas) k)
                then fmlookup schemas k else None)" for k
      using ne by (simp add: filterSchemas_def include_fold_lookup del: js_get.simps)
    show "filterOperations ops (Some inc) exc' = filterOperations ops (Some inc) None"
      using ne by (simp add: filterOperations_def)
    have "has_tag_in inc = (\<lambda>op. \<exists>ts. tags op = Some ts \<and> set ts \<inter> set inc \<noteq> {})"
      by (rule ext) (rule has_tag_in_iff)
    then show "filterOperations ops (Some inc) exc'
          = filter (\<lambda>op. \<exists>ts. tags op = Some ts \<and> set ts \<inter> set inc \<noteq> {}) ops"
      using ne by (simp add: filterOperations_def)
  qed
  have ident: "filterSchemas schemas None None = schemas"
    "filterSchemas schemas (Some []) (Some []) = schemas"
    "filterSchemas schemas None (Some []) = schemas"
    "filterSchemas schemas (Some []) None = schemas"
    "filterOperations ops None None = ops"
    "filterOperations ops (Some []) (Some []) = ops"
    "filterOperations ops None (Some []) = ops"
    "filterOperations ops (Some []) None = ops"
    by (simp_all add: filterSchemas_def filterOperations_def)
  from inc ident show ?thesis by blast
qed

theorem include_list_precedence_witness:
  "filterSchemas example_schemas (Some [''Pet'']) (Some [''Pet''])
     = fmap_of_list [(''Pet'', JObj (fmap_of_list [(''type'', JStr ''object'')]))]
   \<and> filterOperations
         [example_operation ''getPet'' (Some [''pets'']), example_operation ''ping'' None,
          example_operation ''getOwner'' (Some [''owners'', ''people''])]
         (Some [''people'', ''misc'']) (Some [''people''])
       = [example_operation ''getOwner'' (Some [''owners'', ''people''])]"
proof -
  let ?ops = "[example_operation ''getPet'' (Some [''pets'']), example_operation ''ping'' None,
          example_operation ''getOwner'' (Some [''owners'', ''people''])]"
  note t = include_list_precedence [of "[''Pet'']" example_schemas "Some [''Pet'']" ?ops "Some [''people'']"]
  note u = include_list_precedence [of "[''people'', ''misc'']" example_schemas "Some [''Pet'']" ?ops "Some [''people'']"]
  have a: "filterSchemas example_schemas (Some [''Pet'']) (Some [''Pet''])
             = filterSchemas example_schemas (Some [''Pet'']) None"
    using t by simp
  have a': "filterSchemas example_schemas (Some [''Pet'']) None
             = fmap_of_list [(''Pet'', JObj (fmap_of_list [(''type'', JStr ''object'')]))]"
    by (simp add: filterSchemas_def example_schemas_def)
  have b: "filterOperations ?ops (Some [''people'', ''misc'']) (Some [''people''])
             = filterOperations ?ops (Some [''people'', ''misc'']) None"
    using u by simp
  have b': "filterOperations ?ops (Some [''people'', ''misc'']) None
             = [example_operation ''getOwner'' (Some [''owners'', ''people''])]"
    by (simp add: filterOperations_def has_tag_in_def example_operation_def)
  from a a' b b' show ?thesis by simp
qed

subsection \<open>Grouping\<close>
















section \<open>The template manager\<close>

datatype TemplateType = API_CLIENT | TYPESCRIPT_TYPES | CONFIG_FILE | OtherType string

datatype FrameworkType = AXIOS | FETCH | REACT_QUERY | SWR | ANGULAR | VUE

record Template =
  t_id :: string
  t_name :: string
  t_type :: TemplateType
  t_framework :: "FrameworkType option"
  t_path :: "string option"
  t_content :: "string option"
  t_isBuiltIn :: "bool option"
  t_description :: "string option"

text \<open>
  A manifest file (\<^verbatim>\<open>templates.json\<close>) is absent, or holds text that \<^verbatim>\<open>JSON.parse\<close>
  rejects, or holds a list of template entries. The two manifests are kept apart from the
  template body files, which are a map from path to text. Reading a file that is absent
  fails; creating a directory and writing a file are taken to succeed.
\<close>

datatype ConfigFile = Missing | Unparsable | Parsed "Template list"

datatype TMError = ENOENT string | SyntaxError | TypeError | Error string

record ManagerState =
  builtInTemplates :: "Template list"
  customTemplates :: "Template list"
  initialized :: bool
  builtInConfig :: ConfigFile
  customConfig :: ConfigFile
  bodies :: "(string, string) fmap"

definition BUILT_IN_TEMPLATES_DIR :: string where
  "BUILT_IN_TEMPLATES_DIR = ''src/templates/built-in''"

definition CUSTOM_TEMPLATES_DIR :: string where
  "CUSTOM_TEMPLATES_DIR = ''src/templates/custom''"

definition path_join :: "string \<Rightarrow> string \<Rightarrow> string" where
  "path_join dir rel = dir @ ''/'' @ rel"

text \<open>A manager as the constructor leaves it, over a given file system.\<close>

definition new_manager :: "ConfigFile \<Rightarrow> ConfigFile \<Rightarrow> (string, string) fmap \<Rightarrow> ManagerState" where
  "new_manager bic cc fs =
     \<lparr> builtInTemplates = [], customTemplates = [], initialized = False,
       builtInConfig = bic, customConfig = cc, bodies = fs \<rparr>"

text \<open>\<^verbatim>\<open>ensureDirectoriesExist\<close>: a missing custom manifest is created empty.\<close>

definition ensureDirectoriesExist :: "ManagerState \<Rightarrow> ManagerState" where
  "ensureDirectoriesExist st =
     (if customConfig st = Missing then st \<lparr> customConfig := Parsed [] \<rparr> else st)"

text \<open>The loop of \<^verbatim>\<open>loadBuiltInTemplates\<close>: the first entry without a path or without a
  body file ends it with the error, after the entries before it were pushed.\<close>

fun load_built_in :: "Template list \<Rightarrow> ManagerState \<Rightarrow> TMError option \<times> ManagerState" where
  "load_built_in [] st = (None, st)"
| "load_built_in (template # rest) st =
     (case t_path template of
        None \<Rightarrow> (Some TypeError, st)
      | Some p \<Rightarrow>
          (case fmlookup (bodies st) (path_join BUILT_IN_TEMPLATES_DIR p) of
             None \<Rightarrow> (Some (ENOENT (path_join BUILT_IN_TEMPLATES_DIR p)), st)
           | Some content \<Rightarrow>
               load_built_in rest
                 (st \<lparr> builtInTemplates :=
                        builtInTemplates st
                        @ [template \<lparr> t_content := Some content, t_isBuiltIn := Some True \<rparr>] \<rparr>)))"

definition loadBuiltInTemplates :: "ManagerState \<Rightarrow> TMError option \<times> ManagerState" where
  "loadBuiltInTemplates st =
     (case builtInConfig st of
        Missing \<Rightarrow> (Some (ENOENT (path_join BUILT_IN_TEMPLATES_DIR ''templates.json'')), st)
      | Unparsable \<Rightarrow> (Some SyntaxError, st)
      | Parsed templates \<Rightarrow> load_built_in templates st)"

text \<open>The loop of \<^verbatim>\<open>loadCustomTemplates\<close>: an entry whose body file cannot be read is
  skipped; an entry without a path ends the loop with the error.\<close>

fun load_custom :: "Template list \<Rightarrow> ManagerState \<Rightarrow> TMError option \<times> ManagerState" where
  "load_custom [] st = (None, st)"
| "load_custom (template # rest) st =
     (case t_path template of
        None \<Rightarrow> (Some TypeError, st)
      | Some p \<Rightarrow>
          (case fmlookup (bodies st) (path_join CUSTOM_TEMPLATES_DIR p) of
             None \<Rightarrow> load_custom rest st
           | Some content \<Rightarrow>
               load_custom rest
                 (st \<lparr> customTemplates :=
                        customTemplates st
                        @ [template \<lparr> t_content := Some content, t_isBuiltIn := Some False \<rparr>] \<rparr>)))"

definition loadCustomTemplates :: "ManagerState \<Rightarrow> TMError option \<times> ManagerState" where
  "loadCustomTemplates st =
     (case customConfig st of
        Missing \<Rightarrow> (None, st \<lparr> customConfig := Parsed [] \<rparr>)
      | Unparsable \<Rightarrow> (Some SyntaxError, st)
      | Parsed templates \<Rightarrow> load_custom templates st)"

definition initialize :: "ManagerState \<Rightarrow> TMError option \<times> ManagerState" where
  "initialize st =
     (if initialized st then (None, st)
      else (case loadBuiltInTemplates (ensureDirectoriesExist st) of
              (Some e, st1) \<Rightarrow> (Some e, st1)
            | (None, st1) \<Rightarrow>
                (case loadCustomTemplates st1 of
                   (Some e, st2) \<Rightarrow> (Some e, st2)
                 | (None, st2) \<Rightarrow> (None, st2 \<lparr> initialized := True \<rparr>))))"

definition getAllTemplates :: "ManagerState \<Rightarrow> Template list" where
  "getAllTemplates st = builtInTemplates st @ customTemplates st"

definition getTemplate :: "ManagerState \<Rightarrow> string \<Rightarrow> Template option" where
  "getTemplate st i = List.find (\<lambda>template. t_id template = i) (getAllTemplates st)"

definition relativePath :: "Template \<Rightarrow> string" where
  "relativePath template =
     (case t_type template of
        API_CLIENT \<Rightarrow> ''api-client/'' @ t_id template @ ''.tpl''
      | TYPESCRIPT_TYPES \<Rightarrow> ''typescript-types/'' @ t_id template @ ''.tpl''
      | CONFIG_FILE \<Rightarrow> ''config/'' @ t_id template @ ''.tpl''
      | OtherType _ \<Rightarrow> t_id template @ ''.tpl'')"

text \<open>\<^verbatim>\<open>updateCustomTemplatesConfig\<close>: the manifest is the custom list without the bodies.\<close>

definition updateCustomTemplatesConfig :: "ManagerState \<Rightarrow> ManagerState" where
  "updateCustomTemplatesConfig st =
     st \<lparr> customConfig := Parsed (map (\<lambda>template. template \<lparr> t_content := None \<rparr>) (customTemplates st)) \<rparr>"

text \<open>\<^verbatim>\<open>findIndex\<close> and the replacement or the push that follows it.\<close>

fun put_custom :: "Template \<Rightarrow> Template list \<Rightarrow> Template list" where
  "put_custom new [] = [new]"
| "put_custom new (template # rest) =
     (if t_id template = t_id new then new # rest else template # put_custom new rest)"

text \<open>The body of \<^verbatim>\<open>saveCustomTemplate\<close> after the manager is initialised.\<close>

definition save_initialized :: "ManagerState \<Rightarrow> Template \<Rightarrow> (TMError + Template) \<times> ManagerState" where
  "save_initialized st template =
     (if (case getTemplate st (t_id template) of
            Some existingTemplate \<Rightarrow> t_isBuiltIn existingTemplate = Some True
          | None \<Rightarrow> False)
      then (Inl (Error (''Cannot override built-in template: '' @ t_id template)), st)
      else
        (let st1 = st \<lparr> bodies :=
                      fmupd (path_join CUSTOM_TEMPLATES_DIR (relativePath template))
                        (case t_content template of None \<Rightarrow> [] | Some c \<Rightarrow> c) (bodies st) \<rparr>;
             newTemplate =
               \<lparr> t_id = t_id template, t_name = t_name template, t_type = t_type template,
                 t_framework = t_framework template, t_path = Some (relativePath template),
                 t_content = t_content template, t_isBuiltIn = Some False,
                 t_description = t_description template \<rparr>;
             st2 = st1 \<lparr> customTemplates := put_custom newTemplate (customTemplates st1) \<rparr>
         in (Inr newTemplate, updateCustomTemplatesConfig st2)))"

definition saveCustomTemplate :: "ManagerState \<Rightarrow> Template \<Rightarrow> (TMError + Template) \<times> ManagerState" where
  "saveCustomTemplate st template =
     (if \<not> initialized st
      then (case initialize st of
              (Some e, st1) \<Rightarrow> (Inl e, st1)
            | (None, st1) \<Rightarrow> save_initialized st1 template)
      else save_initialized st template)"

text \<open>Every entry of the built-in list carries the built-in flag: it holds for a new
  manager, and the operations keep it.\<close>

definition built_ins_marked :: "ManagerState \<Rightarrow> bool" where
  "built_ins_marked st = list_all (\<lambda>template. t_isBuiltIn template = Some True) (builtInTemplates st)"

definition example_built_in :: Template where
  "example_built_in =
     \<lparr> t_id = ''axios-client'', t_name = ''Axios client'', t_type = API_CLIENT,
       t_framework = Some AXIOS, t_path = Some ''api-client/axios-client.tpl'',
       t_content = None, t_isBuiltIn = None, t_description = None \<rparr>"

definition example_manager :: ManagerState where
  "example_manager =
     new_manager (Parsed [example_built_in]) Missing
       (fmap_of_list [(''src/templates/built-in/api-client/axios-client.tpl'', ''{apiName}'')])"

text \<open>A manager over a file system that already holds one custom template.\<close>

definition example_custom :: Template where
  "example_custom =
     \<lparr> t_id = ''mine'', t_name = ''Mine'', t_type = CONFIG_FILE,
       t_framework = None, t_path = Some ''config/mine.tpl'',
       t_content = None, t_isBuiltIn = Some False, t_description = None \<rparr>"

definition example_manager_with_custom :: ManagerState where
  "example_manager_with_custom =
     new_manager (Parsed [example_built_in]) (Parsed [example_custom])
       (fmap_of_list [(''src/templates/built-in/api-client/axios-client.tpl'', ''{apiName}''),
                      (''src/templates/custom/config/mine.tpl'', ''x'')])"

definition example_user_template :: Template where
  "example_user_template =
     \<lparr> t_id = ''axios-client'', t_name = ''Mine'', t_type = CONFIG_FILE,
       t_framework = None, t_path = None, t_content = Some ''x'', t_isBuiltIn = None,
       t_description = None \<rparr>"

lemma built_ins_marked_new: "built_ins_marked (new_manager bic cc fs)"
  by (simp add: built_ins_marked_def new_manager_def)

lemma load_built_in_marked:
  "built_ins_marked st \<Longrightarrow> load_built_in ts st = (e, st') \<Longrightarrow> built_ins_marked st'"
proof (induction ts arbitrary: st)
  case Nil
  then show ?case by simp
next
  case (Cons a ts)
  show ?case
  proof (cases "t_path a")
    case None
    with Cons.prems show ?thesis by simp
  next
    case (Some p)
    show ?thesis
    proof (cases "fmlookup (bodies st) (path_join BUILT_IN_TEMPLATES_DIR p)")
      case None
      with Some Cons.prems show ?thesis by simp
    next
      case (Some content)
      let ?st = "st \<lparr> builtInTemplates :=
                        builtInTemplates st
                        @ [a \<lparr> t_content := Some content, t_isBuiltIn := Some True \<rparr>] \<rparr>"
      from Cons.prems(1) have "built_ins_marked ?st" by (simp add: built_ins_marked_def)
      moreover from Cons.prems(2) \<open>t_path a = Some p\<close> Some have "load_built_in ts ?st = (e, st')"
        by simp
      ultimately show ?thesis by (rule Cons.IH)
    qed
  qed
qed

lemma load_custom_built_ins:
  "load_custom ts st = (e, st') \<Longrightarrow> builtInTemplates st' = builtInTemplates st"
  by (induction ts arbitrary: st) (auto split: option.splits)

lemma initialize_marked:
  assumes "built_ins_marked st" and "initialize st = (e, st')"
  shows "built_ins_marked st'"
proof (cases "initialized st")
  case True
  with assms show ?thesis by (simp add: initialize_def)
next
  case False
  obtain e1 st1 where l1: "loadBuiltInTemplates (ensureDirectoriesExist st) = (e1, st1)"
    by (cases "loadBuiltInTemplates (ensureDirectoriesExist st)")
  have "built_ins_marked (ensureDirectoriesExist st)"
    using assms(1) by (simp add: built_ins_marked_def ensureDirectoriesExist_def)
  with l1 have m1: "built_ins_marked st1"
    by (auto simp: loadBuiltInTemplates_def split: ConfigFile.splits dest: load_built_in_marked)
  show ?thesis
  proof (cases e1)
    case (Some err)
    with assms(2) False l1 m1 show ?thesis by (simp add: initialize_def)
  next
    case None
    obtain e2 st2 where l2: "loadCustomTemplates st1 = (e2, st2)"
      by (cases "loadCustomTemplates st1")
    then have "builtInTemplates st2 = builtInTemplates st1"
      by (auto simp: loadCustomTemplates_def split: ConfigFile.splits dest: load_custom_built_ins)
    with m1 have m2: "built_ins_marked st2" by (simp add: built_ins_marked_def)
    from assms(2) False l1 None l2 have "st' = st2 \<or> st' = st2 \<lparr> initialized := True \<rparr>"
      by (auto simp: initialize_def split: option.splits)
    with m2 show ?thesis by (auto simp: built_ins_marked_def)
  qed
qed

lemma save_initialized_marked:
  "built_ins_marked st \<Longrightarrow> save_initialized st t = (r, st') \<Longrightarrow> built_ins_marked st'"
  by (auto simp: save_initialized_def built_ins_marked_def updateCustomTemplatesConfig_def Let_def
      split: if_splits)

lemma saveCustomTemplate_marked:
  assumes "built_ins_marked st" and "saveCustomTemplate st t = (r, st')"
  shows "built_ins_marked st'"
proof (cases "initialized st")
  case True
  with assms show ?thesis by (auto simp: saveCustomTemplate_def dest: save_initialized_marked)
next
  case False
  obtain e st1 where i: "initialize st = (e, st1)" by (cases "initialize st")
  from initialize_marked [OF assms(1) i] have m: "built_ins_marked st1" .
  show ?thesis
  proof (cases e)
    case None
    with assms(2) False i have "save_initialized st1 t = (r, st')"
      by (simp add: saveCustomTemplate_def)
    with m show ?thesis by (rule save_initialized_marked)
  next
    case (Some err)
    with assms(2) False i m show ?thesis by (simp add: saveCustomTemplate_def)
  qed
qed

text \<open>When a built-in template has the identifier, \<open>getTemplate\<close> finds a built-in one: the
  built-in list is searched first.\<close>

lemma find_append:
  "List.find P (xs @ ys) = (case List.find P xs of Some x \<Rightarrow> Some x | None \<Rightarrow> List.find P ys)"
  by (induction xs) auto

lemma getTemplate_built_in:
  assumes "built_ins_marked st" and "i \<in> t_id ` set (builtInTemplates st)"
  shows "\<exists>b. getTemplate st i = Some b \<and> t_isBuiltIn b = Some True"
proof -
  from assms(2) have "\<exists>x\<in>set (builtInTemplates st). t_id x = i" by auto
  then obtain b where b: "List.find (\<lambda>template. t_id template = i) (builtInTemplates st) = Some b"
    by (cases "List.find (\<lambda>template. t_id template = i) (builtInTemplates st)")
       (auto simp: find_None_iff)
  then have "b \<in> set (builtInTemplates st)"
    by (auto simp: find_Some_iff)
  with assms(1) have "t_isBuiltIn b = Some True"
    by (simp add: built_ins_marked_def list_all_iff)
  with b show ?thesis by (simp add: getTemplate_def getAllTemplates_def find_append)
qed

lemma getTemplate_custom:
  assumes "i \<notin> t_id ` set (builtInTemplates st)" and "getTemplate st i = Some b"
  shows "b \<in> set (customTemplates st)"
proof -
  from assms(1) have "List.find (\<lambda>template. t_id template = i) (builtInTemplates st) = None"
    by (auto simp: find_None_iff)
  with assms(2) show ?thesis
    by (auto simp: getTemplate_def getAllTemplates_def find_append find_Some_iff)
qed


lemma save_initialized_rejects:
  assumes "built_ins_marked st" and "t_id t \<in> t_id ` set (builtInTemplates st)"
  shows "save_initialized st t
           = (Inl (Error (''Cannot override built-in template: '' @ t_id t)), st)"
proof -
  from getTemplate_built_in [OF assms] obtain b where
    "getTemplate st (t_id t) = Some b" "t_isBuiltIn b = Some True" by blast
  then show ?thesis by (simp add: save_initialized_def)
qed

lemma save_initialized_accepts:
  assumes "built_ins_marked st" and "save_initialized st t = (Inr saved, st')"
  shows "t_id t \<notin> t_id ` set (builtInTemplates st')"
proof
  assume "t_id t \<in> t_id ` set (builtInTemplates st')"
  moreover from assms(2) have "builtInTemplates st' = builtInTemplates st"
    by (auto simp: save_initialized_def updateCustomTemplatesConfig_def Let_def split: if_splits)
  ultimately have "t_id t \<in> t_id ` set (builtInTemplates st)" by simp
  from save_initialized_rejects [OF assms(1) this] assms(2) show False by simp
qed

text \<open>What \<open>initialize\<close> does to the files: it creates a missing custom manifest and
  writes nothing else.\<close>

lemma load_built_in_files:
  "load_built_in ts st = (e, st') \<Longrightarrow>
     bodies st' = bodies st \<and> customConfig st' = customConfig st
     \<and> builtInConfig st' = builtInConfig st \<and> customTemplates st' = customTemplates st
     \<and> initialized st' = initialized st"
  by (induction ts arbitrary: st) (auto split: option.splits)

lemma load_custom_files:
  "load_custom ts st = (e, st') \<Longrightarrow>
     bodies st' = bodies st \<and> customConfig st' = customConfig st
     \<and> builtInConfig st' = builtInConfig st \<and> initialized st' = initialized st"
  by (induction ts arbitrary: st) (auto split: option.splits)

lemma initialize_files:
  assumes "initialize st = (e, st')"
  shows "bodies st' = bodies st \<and> builtInConfig st' = builtInConfig st
         \<and> customConfig st' = (if customConfig st = Missing \<and> \<not> initialized st then Parsed []
                                else customConfig st)"
proof (cases "initialized st")
  case True
  with assms show ?thesis by (simp add: initialize_def)
next
  case False
  let ?s0 = "ensureDirectoriesExist st"
  have f0: "bodies ?s0 = bodies st" "builtInConfig ?s0 = builtInConfig st"
    "customConfig ?s0 = (if customConfig st = Missing then Parsed [] else customConfig st)"
    by (simp_all add: ensureDirectoriesExist_def)
  obtain e1 st1 where l1: "loadBuiltInTemplates ?s0 = (e1, st1)"
    by (cases "loadBuiltInTemplates ?s0")
  then have f1: "bodies st1 = bodies ?s0 \<and> customConfig st1 = customConfig ?s0
     \<and> builtInConfig st1 = builtInConfig ?s0"
    by (auto simp: loadBuiltInTemplates_def split: ConfigFile.splits dest: load_built_in_files)
  show ?thesis
  proof (cases e1)
    case (Some err)
    with assms False l1 have "st' = st1" by (simp add: initialize_def)
    with f0 f1 False show ?thesis by simp
  next
    case None
    obtain e2 st2 where l2: "loadCustomTemplates st1 = (e2, st2)"
      by (cases "loadCustomTemplates st1")
    from f0 f1 have nm: "customConfig st1 \<noteq> Missing" by (simp split: if_splits)
    with l2 have f2: "bodies st2 = bodies st1 \<and> customConfig st2 = customConfig st1
      \<and> builtInConfig st2 = builtInConfig st1"
      by (auto simp: loadCustomTemplates_def split: ConfigFile.splits dest: load_custom_files)
    from assms False l1 None l2 have "st' = st2 \<or> st' = st2 \<lparr> initialized := True \<rparr>"
      by (auto simp: initialize_def split: option.splits)
    with f0 f1 f2 False show ?thesis by auto
  qed
qed

text \<open>
  Claim C8, as amended. Saving a template whose identifier is that of a built-in template
  is rejected with the failure \<^verbatim>\<open>Cannot override built-in template: <id>\<close>, and the save
  itself writes nothing. On an initialised manager the whole state after the call (the
  custom list in memory, the body files, the two manifests) is the state before it. A
  manager that was not initialised yet is initialised by the call first: the state after
  the rejection is the initialised state, in which the lists in memory are loaded from the
  manifests and a custom manifest that was missing has been created empty, while the body
  files, the built-in manifest and a custom manifest that existed are as before.
  Conversely a save that succeeds never has the identifier of a built-in template.
\<close>

theorem built_in_collision_rejected:
  "(built_ins_marked st \<and> initialized st \<and> t_id t \<in> t_id ` set (builtInTemplates st) \<longrightarrow>
      saveCustomTemplate st t
        = (Inl (Error (''Cannot override built-in template: '' @ t_id t)), st))
   \<and> (built_ins_marked st \<and> \<not> initialized st \<and> initialize st = (None, st1)
        \<and> t_id t \<in> t_id ` set (builtInTemplates st1) \<longrightarrow>
      saveCustomTemplate st t
        = (Inl (Error (''Cannot override built-in template: '' @ t_id t)), st1)
      \<and> bodies st1 = bodies st \<and> builtInConfig st1 = builtInConfig st
      \<and> customConfig st1 = (if customConfig st = Missing then Parsed [] else customConfig st))
   \<and> (built_ins_marked st \<and> saveCustomTemplate st t = (Inr saved, st2) \<longrightarrow>
        t_id t \<notin> t_id ` set (builtInTemplates st2))"
proof (intro conjI impI)
  assume "built_ins_marked st \<and> initialized st \<and> t_id t \<in> t_id ` set (builtInTemplates st)"
  then show "saveCustomTemplate st t
        = (Inl (Error (''Cannot override built-in template: '' @ t_id t)), st)"
    by (simp add: saveCustomTemplate_def save_initialized_rejects)
next
  assume a: "built_ins_marked st \<and> \<not> initialized st \<and> initialize st = (None, st1)
        \<and> t_id t \<in> t_id ` set (builtInTemplates st1)"
  then have "built_ins_marked st1" by (blast intro: initialize_marked)
  with a show "saveCustomTemplate st t
        = (Inl (Error (''Cannot override built-in template: '' @ t_id t)), st1)"
    by (simp add: saveCustomTemplate_def save_initialized_rejects)
  from a have i: "initialize st = (None, st1)" and n: "\<not> initialized st" by simp_all
  from initialize_files [OF i] n
  show "bodies st1 = bodies st" "builtInConfig st1 = builtInConfig st"
    "customConfig st1 = (if customConfig st = Missing then Parsed [] else customConfig st)"
    by simp_all
next
  assume a: "built_ins_marked st \<and> saveCustomTemplate st t = (Inr saved, st2)"
  show "t_id t \<notin> t_id ` set (builtInTemplates st2)"
  proof (cases "initialized st")
    case True
    with a show ?thesis
      by (auto simp: saveCustomTemplate_def dest: save_initialized_accepts)
  next
    case False
    obtain e st1 where i: "initialize st = (e, st1)" by (cases "initialize st")
    with a False have s: "e = None" "save_initialized st1 t = (Inr saved, st2)"
      by (auto simp: saveCustomTemplate_def split: option.splits)
    from a i have "built_ins_marked st1" by (blast intro: initialize_marked)
    from save_initialized_accepts [OF this s(2)] show ?thesis .
  qed
qed

theorem built_in_collision_rejected_witness:
  "saveCustomTemplate (snd (initialize example_manager)) example_user_template
     = (Inl (Error ''Cannot override built-in template: axios-client''), snd (initialize example_manager))
   \<and> saveCustomTemplate example_manager example_user_template
     = (Inl (Error ''Cannot override built-in template: axios-client''), snd (initialize example_manager))
   \<and> bodies (snd (initialize example_manager)) = bodies example_manager
   \<and> customTemplates (snd (initialize example_manager)) = []
   \<and> customConfig (snd (initialize example_manager)) = Parsed []
   \<and> fst (saveCustomTemplate (snd (initialize example_manager))
             (example_user_template \<lparr> t_id := ''mine'' \<rparr>))
     = Inr \<lparr> t_id = ''mine'', t_name = ''Mine'', t_type = CONFIG_FILE,
         t_framework = None, t_path = Some ''config/mine.tpl'', t_content = Some ''x'',
         t_isBuiltIn = Some False, t_description = None \<rparr>"
proof -
  let ?st = "snd (initialize example_manager)"
  let ?t = example_user_template
  have i: "initialize example_manager = (None, ?st)" by code_simp
  have m0: "built_ins_marked example_manager"
    unfolding example_manager_def by (rule built_ins_marked_new)
  from initialize_marked [OF m0 i] have m: "built_ins_marked ?st" .
  have init: "initialized ?st" "\<not> initialized example_manager" by code_simp+
  have mem: "t_id ?t \<in> t_id ` set (builtInTemplates ?st)" by code_simp
  have msg: "''Cannot override built-in template: '' @ t_id ?t
               = ''Cannot override built-in template: axios-client''"
    by code_simp
  have a: "saveCustomTemplate ?st ?t
             = (Inl (Error (''Cannot override built-in template: '' @ t_id ?t)), ?st)"
    using built_in_collision_rejected [of ?st ?t] m init(1) mem by blast
  have b: "saveCustomTemplate example_manager ?t
             = (Inl (Error (''Cannot override built-in template: '' @ t_id ?t)), ?st)"
    "bodies ?st = bodies example_manager"
    using built_in_collision_rejected [of example_manager ?t ?st] m0 init(2) i mem by blast+
  have c: "customTemplates ?st = []" "customConfig ?st = Parsed []" by code_simp+
  have d: "fst (saveCustomTemplate ?st (?t \<lparr> t_id := ''mine'' \<rparr>))
     = Inr \<lparr> t_id = ''mine'', t_name = ''Mine'', t_type = CONFIG_FILE,
         t_framework = None, t_path = Some ''config/mine.tpl'', t_content = Some ''x'',
         t_isBuiltIn = Some False, t_description = None \<rparr>"
    by code_simp
  from a b c d show ?thesis unfolding msg by simp
qed

text \<open>
  Two rejected calls on managers that were not initialised yet. They change what the claim
  as first stated says is unchanged: in the first the custom manifest, which was missing,
  exists afterwards; in the second the custom list in memory, which was empty, holds the
  template of the manifest afterwards.
\<close>

theorem built_in_collision_initializes_counterexample:
  "fst (saveCustomTemplate example_manager example_user_template)
     = Inl (Error ''Cannot override built-in template: axios-client'')
   \<and> customConfig example_manager = Missing
   \<and> customConfig (snd (saveCustomTemplate example_manager example_user_template)) = Parsed []
   \<and> fst (saveCustomTemplate example_manager_with_custom example_user_template)
     = Inl (Error ''Cannot override built-in template: axios-client'')
   \<and> customTemplates example_manager_with_custom = []
   \<and> customTemplates (snd (saveCustomTemplate example_manager_with_custom example_user_template))
     = [example_custom \<lparr> t_content := Some ''x'' \<rparr>]"
  by code_simp

section \<open>The optimized parser: cache, acquisition and progress\<close>

text \<open>
  The parser keeps a static in-memory cache and a directory of cache files, and reads the
  clock, the network and the file system. The model passes this state explicitly. A call
  is taken to run at one instant \<open>now\<close>; times are in milliseconds, with the fraction
  that \<^verbatim>\<open>mtimeMs\<close> can carry; a cache file holds the value its text parses to
  (\<open>None\<close> for text that \<^verbatim>\<open>JSON.parse\<close> rejects), a raw document being JSON data
  that \<^verbatim>\<open>JSON.stringify\<close> and \<^verbatim>\<open>JSON.parse\<close> reproduce. What the digest, the network,
  the file system and the external document parser return is given by the functions of
  an environment.

  A document is an object, and objects are shared: the memory cache, the parser and the
  caller hold the same object, and \<^verbatim>\<open>SwaggerParser.parse\<close> and
  \<^verbatim>\<open>SwaggerParser.validate\<close> may write into the object they are given. The model
  therefore keeps every value that is acquired or parsed in a cell of a store \<open>heap\<close>;
  the memory cache and the field \<open>rawApiData\<close> hold the address of the cell, and a cache
  file holds the text, that is the content at the time of the write. The two library
  functions are given the content of the object and return the outcome of the call
  together with the content of the object after the call. A cell that holds a primitive
  value never changes. The store has one cell per document: the objects inside a document
  are part of its content, so the lite document, which is a new object built from fields
  of the raw document, is passed by content. The parsed document \<open>api\<close> is recorded by
  content as well; nothing in the functions below writes into it.
\<close>

record CacheItem =
  timestamp :: rat
  data :: nat

record CacheFile =
  mtimeMs :: rat
  content :: "jsval option"

datatype ParserError =
    FetchDocFailed string
  | ReadLocalFailed string
  | ParseDocFailed string
  | PTypeError
  | FailedToFetchApi ParserError

record Env =
  http_get :: "string \<Rightarrow> (string \<times> string) list \<Rightarrow> string + jsval"
  read_json_file :: "string \<Rightarrow> string + jsval"
  swagger_parse :: "jsval \<Rightarrow> (string + jsval) \<times> jsval"
  swagger_validate :: "jsval \<Rightarrow> (string + jsval) \<times> jsval"

record Parser =
  url :: string
  headers :: "(string \<times> string) list"
  skipValidation :: bool
  useCache :: bool
  cacheTTL :: rat
  lazyLoading :: bool
  progressCallback :: bool
  api :: jsval
  rawApiData :: "nat option"

record World =
  heap :: "jsval list"
  cache :: "(string, CacheItem) fmap"
  cacheFiles :: "(string, CacheFile) fmap"
  disk_ok :: bool
  now :: rat
  reads :: "string list"
  reported :: "rat list"

text \<open>The constructor with its defaults: validation on, cache on with a TTL of one hour,
  lazy loading on.\<close>

definition new_parser :: "string \<Rightarrow> (string \<times> string) list \<Rightarrow> Parser" where
  "new_parser u hs =
     \<lparr> url = u, headers = hs, skipValidation = False, useCache = True, cacheTTL = 3600000,
       lazyLoading = True, progressCallback = False, api = JUndefined, rawApiData = None \<rparr>"

subsection \<open>The store\<close>

definition deref :: "World \<Rightarrow> nat \<Rightarrow> jsval" where
  "deref w a = (if a < length (heap w) then heap w ! a else JUndefined)"

text \<open>A new cell for a value that was received or parsed.\<close>

definition alloc :: "jsval \<Rightarrow> World \<Rightarrow> nat \<times> World" where
  "alloc d w = (length (heap w), w \<lparr> heap := heap w @ [d] \<rparr>)"

text \<open>\<^verbatim>\<open>if (ref)\<close> for a field or a result that is undefined, null (\<open>None\<close>) or a value of
  the store: the reference when the test succeeds.\<close>

definition truthy_ref :: "World \<Rightarrow> nat option \<Rightarrow> nat option" where
  "truthy_ref w r =
     (case r of Some a \<Rightarrow> if ToBoolean (deref w a) then Some a else None | None \<Rightarrow> None)"

text \<open>What a cell holds after a library call that was given its object: an object stays an
  object and an array an array, with the content the library left; a primitive value
  cannot be written.\<close>

definition written_in_place :: "jsval \<Rightarrow> jsval \<Rightarrow> jsval" where
  "written_in_place held left =
     (case held of
        JObj _ \<Rightarrow> (case left of JObj _ \<Rightarrow> left | _ \<Rightarrow> held)
      | JArr _ \<Rightarrow> (case left of JArr _ \<Rightarrow> left | _ \<Rightarrow> held)
      | _ \<Rightarrow> held)"

text \<open>A call of a library function on the object at an address.\<close>

definition library_call ::
  "(jsval \<Rightarrow> (string + jsval) \<times> jsval) \<Rightarrow> nat \<Rightarrow> World \<Rightarrow> (string + jsval) \<times> World" where
  "library_call f a w =
     (case f (deref w a) of
        (outcome, left) \<Rightarrow>
          (outcome, w \<lparr> heap := (heap w)[a := written_in_place (deref w a) left] \<rparr>))"

subsection \<open>The cache key\<close>

definition hex_digit :: "nat \<Rightarrow> char" where
  "hex_digit n = ''0123456789abcdef'' ! (n mod 16)"

text \<open>One character inside a JSON string literal.\<close>

definition json_escape :: "char \<Rightarrow> string" where
  "json_escape c =
     (if c = CHR 0x22 then [CHR 0x5C, CHR 0x22]
      else if c = CHR 0x5C then [CHR 0x5C, CHR 0x5C]
      else if c = CHR 0x08 then [CHR 0x5C, CHR ''b'']
      else if c = CHR 0x0C then [CHR 0x5C, CHR ''f'']
      else if c = CHR 0x0A then [CHR 0x5C, CHR ''n'']
      else if c = CHR 0x0D then [CHR 0x5C, CHR ''r'']
      else if c = CHR 0x09 then [CHR 0x5C, CHR ''t'']
      else if (of_char c :: nat) < 32
      then [CHR 0x5C, CHR ''u'', CHR ''0'', CHR ''0'',
            hex_digit ((of_char c :: nat) div 16), hex_digit (of_char c :: nat)]
      else [c])"

definition json_quote :: "string \<Rightarrow> string" where
  "json_quote s = [CHR 0x22] @ concat (map json_escape s) @ [CHR 0x22]"

text \<open>\<^verbatim>\<open>JSON.stringify(this.headers)\<close> for a \<^verbatim>\<open>Record<string, string>\<close>, its entries in
  insertion order.\<close>

definition JSON_stringify_headers :: "(string \<times> string) list \<Rightarrow> string" where
  "JSON_stringify_headers hs =
     ''{'' @ join '','' (map (\<lambda>(k, v). json_quote k @ '':'' @ json_quote v) hs) @ ''}''"

text \<open>\<open>digest\<close> is \<^verbatim>\<open>crypto.createHash('md5').update(_).digest('hex')\<close>.\<close>

definition getCacheKey :: "(string \<Rightarrow> string) \<Rightarrow> Parser \<Rightarrow> string" where
  "getCacheKey digest p = digest (url p @ JSON_stringify_headers (headers p))"

definition cacheFilePath :: "string \<Rightarrow> string" where
  "cacheFilePath cacheKey = ''.api-cache/'' @ cacheKey @ ''.json''"

subsection \<open>reportProgress, getFromCache, saveToCache, clearCache\<close>

definition reportProgress :: "Parser \<Rightarrow> rat \<Rightarrow> World \<Rightarrow> World" where
  "reportProgress p progress w =
     (if progressCallback p then w \<lparr> reported := reported w @ [progress] \<rparr> else w)"

text \<open>The result \<^verbatim>\<open>null\<close>, which is the miss, is \<open>None\<close>. What \<^verbatim>\<open>JSON.parse\<close> makes
  of the text of the cache file is a new value.\<close>

definition getFromCache :: "(string \<Rightarrow> string) \<Rightarrow> Parser \<Rightarrow> World \<Rightarrow> nat option \<times> World" where
  "getFromCache digest p w =
     (if \<not> useCache p then (None, w)
      else
        (let cacheKey = getCacheKey digest p in
         case (case fmlookup (cache w) cacheKey of
                 Some cachedItem \<Rightarrow>
                   if now w - timestamp cachedItem < cacheTTL p then Some cachedItem else None
               | None \<Rightarrow> None) of
           Some cachedItem \<Rightarrow> (Some (data cachedItem), reportProgress p (1 / 10) w)
         | None \<Rightarrow>
             (case fmlookup (cacheFiles w) (cacheFilePath cacheKey) of
                None \<Rightarrow> (None, w)
              | Some stat \<Rightarrow>
                  if now w - mtimeMs stat < cacheTTL p
                  then (let w1 = reportProgress p (1 / 10) w in
                        case content stat of
                          None \<Rightarrow> (None, w1)
                        | Some d \<Rightarrow>
                            (case alloc d w1 of
                               (a, w2) \<Rightarrow>
                                 (Some a, w2 \<lparr> cache := fmupd cacheKey
                                              \<lparr> timestamp = now w, data = a \<rparr> (cache w2) \<rparr>)))
                  else (None, w))))"

text \<open>The memory cache is given the value itself, the cache file the text of
  \<^verbatim>\<open>JSON.stringify(data)\<close>. The write of the cache file fails, and is only logged, when
  the directory cannot be written or when there is nothing to serialise.\<close>

definition saveToCache :: "(string \<Rightarrow> string) \<Rightarrow> Parser \<Rightarrow> nat \<Rightarrow> World \<Rightarrow> World" where
  "saveToCache digest p a w =
     (if \<not> useCache p then w
      else
        (let cacheKey = getCacheKey digest p;
             w1 = w \<lparr> cache := fmupd cacheKey \<lparr> timestamp = now w, data = a \<rparr> (cache w) \<rparr>
         in if disk_ok w1 \<and> deref w1 a \<noteq> JUndefined
            then w1 \<lparr> cacheFiles := fmupd (cacheFilePath cacheKey)
                          \<lparr> mtimeMs = now w, content = Some (deref w1 a) \<rparr> (cacheFiles w1) \<rparr>
            else w1))"

text \<open>\<^verbatim>\<open>clearCache(url?)\<close>; \<^verbatim>\<open>if (url)\<close> sends the empty string to the branch that clears
  everything.\<close>

definition clearCache :: "(string \<Rightarrow> string) \<Rightarrow> string option \<Rightarrow> World \<Rightarrow> World" where
  "clearCache digest u w =
     (case (case u of Some s \<Rightarrow> if s \<noteq> [] then Some s else None | None \<Rightarrow> None) of
        Some s \<Rightarrow>
          (let cacheKey = digest s
           in w \<lparr> cache := fmdrop cacheKey (cache w),
                  cacheFiles := fmdrop (cacheFilePath cacheKey) (cacheFiles w) \<rparr>)
      | None \<Rightarrow> w \<lparr> cache := fmempty, cacheFiles := fmempty \<rparr>)"

subsection \<open>resolveSwaggerDocUrl\<close>

definition js_replace :: "string \<Rightarrow> string \<Rightarrow> string \<Rightarrow> string" where
  "js_replace s pat rep = (case find_first pat s of Some (b, a) \<Rightarrow> b @ rep @ a | None \<Rightarrow> s)"

text \<open>\<^verbatim>\<open>s.substring(0, s.indexOf(pat))\<close> for a \<open>pat\<close> that occurs, and
  \<^verbatim>\<open>s.substring(0, s.lastIndexOf(c))\<close>, which is empty when \<open>c\<close> does not occur.\<close>

definition before_first :: "string \<Rightarrow> string \<Rightarrow> string" where
  "before_first s pat = (case find_first pat s of Some (b, a) \<Rightarrow> b | None \<Rightarrow> [])"

definition before_last :: "string \<Rightarrow> char \<Rightarrow> string" where
  "before_last s c = rev (drop 1 (dropWhile (\<lambda>x. x \<noteq> c) (rev s)))"

text \<open>\<^verbatim>\<open>Object.keys(v).length\<close>\<close>

fun keys_count :: "jsval \<Rightarrow> nat" where
  "keys_count (JObj m) = fcard (fmdom m)"
| "keys_count (JArr xs) = length xs"
| "keys_count (JStr s) = length s"
| "keys_count v = 0"

definition plausible_document :: "jsval \<Rightarrow> bool" where
  "plausible_document d =
     (ToBoolean d \<and>
      (ToBoolean (js_get d ''swagger'') \<or> ToBoolean (js_get d ''openapi'')
       \<or> (ToBoolean (js_get d ''paths'') \<and> keys_count (js_get d ''paths'') > 0)))"

definition possibleEndpoints :: "string \<Rightarrow> string \<Rightarrow> string list" where
  "possibleEndpoints baseUrl u =
     [baseUrl @ ''/v3/api-docs'',
      baseUrl @ ''/v2/api-docs'',
      baseUrl @ ''/api-docs'',
      baseUrl @ ''/swagger/v3/api-docs'',
      baseUrl @ ''/swagger/v2/api-docs'',
      baseUrl @ ''/swagger/api-docs'',
      js_replace u ''swagger-ui/index.html'' ''v3/api-docs'',
      js_replace u ''swagger-ui.html'' ''v3/api-docs'',
      js_replace u ''doc.html'' ''v3/api-docs'']"

text \<open>The loop over the candidate endpoints; every request is entered in \<open>reads\<close>.\<close>

fun probe :: "Env \<Rightarrow> Parser \<Rightarrow> string \<Rightarrow> string list \<Rightarrow> World \<Rightarrow> string \<times> World" where
  "probe env p u [] w = (u, reportProgress p (2 / 10) w)"
| "probe env p u (endpoint # rest) w =
     (let w1 = reportProgress p (15 / 100) w;
          w2 = w1 \<lparr> reads := reads w1 @ [endpoint] \<rparr>
      in case http_get env endpoint (headers p) of
           Inl err \<Rightarrow> probe env p u rest w2
         | Inr d \<Rightarrow>
             if plausible_document d then (endpoint, reportProgress p (2 / 10) w2)
             else probe env p u rest w2)"

definition resolveSwaggerDocUrl :: "Env \<Rightarrow> Parser \<Rightarrow> string \<Rightarrow> World \<Rightarrow> string \<times> World" where
  "resolveSwaggerDocUrl env p u w =
     (if js_includes u ''/api-docs'' \<or> js_includes u ''/swagger.json'' then (u, w)
      else if js_includes u ''doc.html'' \<or> js_includes u ''swagger-ui.html''
              \<or> js_includes u ''swagger-ui/'' \<or> js_includes u ''swagger/index.html''
      then (let w1 = reportProgress p (1 / 10) w;
                baseUrl0 =
                  (if js_includes u ''swagger-ui/'' then before_first u ''swagger-ui/''
                   else if js_includes u ''swagger/'' then before_first u ''swagger/''
                   else before_last u CHR ''/'');
                baseUrl =
                  (if js_includes baseUrl0 ''#'' then takeWhile (\<lambda>c. c \<noteq> CHR ''#'') baseUrl0
                   else baseUrl0)
            in probe env p u (possibleEndpoints baseUrl u) w1)
      else (u, w))"

subsection \<open>fetchRawApiData, parseApiLite, fetchApi\<close>

definition acquire :: "Env \<Rightarrow> Parser \<Rightarrow> string \<Rightarrow> ParserError + jsval" where
  "acquire env p resolvedUrl =
     (if starts_with resolvedUrl ''http''
      then (case http_get env resolvedUrl (headers p) of
              Inl msg \<Rightarrow> Inl (FetchDocFailed msg) | Inr d \<Rightarrow> Inr d)
      else (case read_json_file env resolvedUrl of
              Inl msg \<Rightarrow> Inl (ReadLocalFailed msg) | Inr d \<Rightarrow> Inr d))"

text \<open>The result is the address of the document.\<close>

definition fetchRawApiData ::
  "Env \<Rightarrow> (string \<Rightarrow> string) \<Rightarrow> Parser \<Rightarrow> World \<Rightarrow> (ParserError + nat) \<times> Parser \<times> World" where
  "fetchRawApiData env digest p w =
     (case truthy_ref w (rawApiData p) of
        Some a \<Rightarrow> (Inr a, p, w)
      | None \<Rightarrow>
        (case getFromCache digest p w of
           (cachedData, w1) \<Rightarrow>
             (case truthy_ref w1 cachedData of
                Some a \<Rightarrow> (Inr a, p \<lparr> rawApiData := Some a \<rparr>, w1)
              | None \<Rightarrow>
               (case resolveSwaggerDocUrl env p (url p) (reportProgress p (3 / 10) w1) of
                  (resolvedUrl, w2) \<Rightarrow>
                    (let w3 = w2 \<lparr> reads := reads w2 @ [resolvedUrl] \<rparr>
                     in case acquire env p resolvedUrl of
                          Inl err \<Rightarrow> (Inl err, p, w3)
                        | Inr apiData \<Rightarrow>
                            (case alloc apiData w3 of
                               (a, w4) \<Rightarrow>
                                 (Inr a, p \<lparr> rawApiData := Some a \<rparr>,
                                  saveToCache digest p a (reportProgress p (5 / 10) w4))))))))"

text \<open>\<^verbatim>\<open>a || b\<close>\<close>

definition js_or :: "jsval \<Rightarrow> jsval \<Rightarrow> jsval" where
  "js_or a b = (if ToBoolean a then a else b)"

definition liteDoc :: "jsval \<Rightarrow> jsval" where
  "liteDoc apiData =
     JObj (fmap_of_list
       [(''openapi'', js_or (js_get apiData ''openapi'') (js_or (js_get apiData ''swagger'') (JStr ''3.0.0''))),
        (''info'', js_or (js_get apiData ''info'')
                     (JObj (fmap_of_list [(''title'', JStr ''API''), (''version'', JStr ''1.0.0'')]))),
        (''paths'', js_or (js_get apiData ''paths'') (JObj fmempty)),
        (''components'', JObj (fmap_of_list [(''schemas'', JObj fmempty)]))])"

definition parseApiLite ::
  "Env \<Rightarrow> (string \<Rightarrow> string) \<Rightarrow> Parser \<Rightarrow> World \<Rightarrow> (ParserError + jsval) \<times> Parser \<times> World" where
  "parseApiLite env digest p w =
     (case fetchRawApiData env digest p (reportProgress p (6 / 10) w) of
        (Inl err, p1, w1) \<Rightarrow> (Inl err, p1, w1)
      | (Inr a, p1, w1) \<Rightarrow>
          (let apiData = deref w1 a
           in if apiData = JNull \<or> apiData = JUndefined then (Inl PTypeError, p1, w1)
              else
                (let w2 = reportProgress p1 (7 / 10) w1
                 in case fst (swagger_parse env (liteDoc apiData)) of
                      Inl msg \<Rightarrow> (Inl (ParseDocFailed msg), p1, w2)
                    | Inr doc \<Rightarrow> (Inr doc, p1, w2))))"

text \<open>The body of the \<^verbatim>\<open>try\<close> block of \<open>fetchApi\<close> when lazy loading is off. The
  library functions are given the raw document itself.\<close>

definition parseApiFull ::
  "Env \<Rightarrow> (string \<Rightarrow> string) \<Rightarrow> Parser \<Rightarrow> World \<Rightarrow> (ParserError + jsval) \<times> Parser \<times> World" where
  "parseApiFull env digest p w =
     (case fetchRawApiData env digest p w of
        (Inl err, p1, w1) \<Rightarrow> (Inl err, p1, w1)
      | (Inr a, p1, w1) \<Rightarrow>
          (let w2 = reportProgress p1 (6 / 10) w1
           in if skipValidation p1
              then (case library_call (swagger_parse env) a w2 of
                      (Inl msg, w3) \<Rightarrow> (Inl (ParseDocFailed msg), p1, w3)
                    | (Inr doc, w3) \<Rightarrow> (Inr doc, p1, w3))
              else (case library_call (swagger_validate env) a w2 of
                      (Inr doc, w3) \<Rightarrow> (Inr doc, p1, w3)
                    | (Inl verr, w3) \<Rightarrow>
                        (case library_call (swagger_parse env) a (reportProgress p1 (7 / 10) w3) of
                           (Inl msg, w4) \<Rightarrow> (Inl (ParseDocFailed msg), p1, w4)
                         | (Inr doc, w4) \<Rightarrow> (Inr doc, p1, w4)))))"

definition fetchApi ::
  "Env \<Rightarrow> (string \<Rightarrow> string) \<Rightarrow> bool \<Rightarrow> Parser \<Rightarrow> World \<Rightarrow> (ParserError + jsval) \<times> Parser \<times> World" where
  "fetchApi env digest forceRefresh p w =
     (if ToBoolean (api p) \<and> \<not> forceRefresh then (Inr (api p), p, w)
      else
        (case (if lazyLoading p then parseApiLite env digest p w
               else parseApiFull env digest p w) of
           (Inr doc, p1, w1) \<Rightarrow> (Inr doc, p1 \<lparr> api := doc \<rparr>, reportProgress p1 1 w1)
         | (Inl err, p1, w1) \<Rightarrow> (Inl (FailedToFetchApi err), p1, reportProgress p1 1 w1)))"

definition empty_world :: "rat \<Rightarrow> World" where
  "empty_world t =
     \<lparr> heap = [], cache = fmempty, cacheFiles = fmempty, disk_ok = True, now = t, reads = [],
       reported = [] \<rparr>"

definition example_document :: jsval where
  "example_document =
     JObj (fmap_of_list
       [(''openapi'', JStr ''3.0.0''),
        (''paths'', JObj (fmap_of_list [(''/pets/{id}'', JObj (fmap_of_list [(''get'', JObj fmempty)]))]))])"

definition example_env :: Env where
  "example_env =
     \<lparr> http_get = (\<lambda>u hs. if u = ''http://example.com/v3/api-docs'' then Inr example_document
                             else Inl ''Request failed with status code 404''),
       read_json_file = (\<lambda>f. Inl ''ENOENT''),
       swagger_parse = (\<lambda>d. (Inr d, d)),
       swagger_validate = (\<lambda>d. (Inr d, d)) \<rparr>"

definition example_parser :: Parser where
  "example_parser = (new_parser ''http://example.com/v3/api-docs'' []) \<lparr> progressCallback := True \<rparr>"

definition example_local_env :: "jsval \<Rightarrow> Env" where
  "example_local_env d =
     \<lparr> http_get = (\<lambda>u hs. Inl ''Network Error''),
       read_json_file = (\<lambda>f. if f = ''api.json'' then Inr d else Inl ''ENOENT''),
       swagger_parse = (\<lambda>d. (Inr d, d)),
       swagger_validate = (\<lambda>d. (Inr d, d)) \<rparr>"

definition example_local_parser :: Parser where
  "example_local_parser = (new_parser ''api.json'' []) \<lparr> cacheTTL := 1000 \<rparr>"










subsection \<open>Progress reports\<close>

lemma fetchRawApiData_callback:
  "fetchRawApiData env digest p w = (r, p1, w1) \<Longrightarrow> progressCallback p1 = progressCallback p"
  by (auto simp: fetchRawApiData_def Let_def split: if_splits prod.splits sum.splits option.splits)

lemma parseApiLite_callback:
  "parseApiLite env digest p w = (r, p1, w1) \<Longrightarrow> progressCallback p1 = progressCallback p"
  by (auto simp: parseApiLite_def Let_def split: if_splits prod.splits sum.splits
      dest: fetchRawApiData_callback)

lemma parseApiFull_callback:
  "parseApiFull env digest p w = (r, p1, w1) \<Longrightarrow> progressCallback p1 = progressCallback p"
  by (auto simp: parseApiFull_def Let_def split: if_splits prod.splits sum.splits
      dest: fetchRawApiData_callback)

text \<open>Whenever \<open>fetchApi\<close> does more than return the document it already holds, and a
  callback is installed, the last fraction it reports is 1, on success and on failure.\<close>

lemma fetchApi_last_report:
  assumes "progressCallback p" and "\<not> (ToBoolean (api p) \<and> \<not> forceRefresh)"
    and "fetchApi env digest forceRefresh p w = (r, p', w')"
  shows "reported w' \<noteq> [] \<and> last (reported w') = 1"
proof -
  obtain r1 p1 w1 where
    b: "(if lazyLoading p then parseApiLite env digest p w else parseApiFull env digest p w)
          = (r1, p1, w1)"
    by (cases "if lazyLoading p then parseApiLite env digest p w else parseApiFull env digest p w")
  then have "progressCallback p1 = progressCallback p"
    by (auto split: if_splits dest: parseApiLite_callback parseApiFull_callback)
  with assms(1) have cb: "progressCallback p1" by simp
  from assms(2,3) b have "w' = reportProgress p1 1 w1"
    by (cases r1) (auto simp: fetchApi_def)
  with cb show ?thesis by (simp add: reportProgress_def)
qed

text \<open>
  Claim C9 says that the fractions reported within one \<open>fetchApi\<close> call never decrease and
  that the last one is 1. The run below is the default configuration (lazy loading on) with
  a callback installed, an empty cache and a document URL: \<open>parseApiLite\<close> reports 0.6
  before it calls \<open>fetchRawApiData\<close>, which then reports 0.3 and 0.5. The sequence is
  0.6, 0.3, 0.5, 0.7, 1: it ends with 1 and it is not non-decreasing.
\<close>

theorem progress_not_monotone:
  "reported (snd (snd (fetchApi example_env digest False example_parser (empty_world 0))))
     = [6 / 10, 3 / 10, 5 / 10, 7 / 10, 1]
   \<and> fst (fetchApi example_env digest False example_parser (empty_world 0)) = Inr (liteDoc example_document)
   \<and> \<not> sorted (reported (snd (snd (fetchApi example_env digest False example_parser (empty_world 0)))))
   \<and> last (reported (snd (snd (fetchApi example_env digest False example_parser (empty_world 0))))) = 1"
proof -
  have inc: "js_includes ''http://example.com/v3/api-docs'' ''/api-docs''"
    by code_simp
  have tr: "ToBoolean example_document" "example_document \<noteq> JNull" "example_document \<noteq> JUndefined"
    by (simp_all add: example_document_def)
  have run: "fetchApi example_env digest False example_parser (empty_world 0)
      = (Inr (liteDoc example_document),
         example_parser \<lparr> rawApiData := Some 0, api := liteDoc example_document \<rparr>,
         saveToCache digest example_parser 0
           ((empty_world 0) \<lparr> heap := [example_document],
                reads := [''http://example.com/v3/api-docs''],
                reported := [6 / 10, 3 / 10, 5 / 10] \<rparr>)
           \<lparr> reported := [6 / 10, 3 / 10, 5 / 10, 7 / 10, 1] \<rparr>)"
    using inc tr
    by (simp add: fetchApi_def parseApiLite_def fetchRawApiData_def getFromCache_def
        resolveSwaggerDocUrl_def acquire_def reportProgress_def saveToCache_def
        example_parser_def new_parser_def empty_world_def example_env_def starts_with_def
        truthy_ref_def alloc_def deref_def Let_def)
  show ?thesis unfolding run by simp
qed


subsection \<open>The cache within and beyond the TTL\<close>




lemma getFromCache_reads: "getFromCache digest p w = (v, w') \<Longrightarrow> reads w' = reads w"
  by (auto simp: getFromCache_def Let_def reportProgress_def alloc_def split: if_splits option.splits)







lemma deref_heap: "heap w = heap w' \<Longrightarrow> deref w a = deref w' a"
  by (simp add: deref_def)
















subsection \<open>clearCache and the key of the fetch path\<close>

lemma cacheFilePath_inject: "cacheFilePath a = cacheFilePath b \<longleftrightarrow> a = b"
  by (simp add: cacheFilePath_def)

lemma JSON_stringify_headers_nonempty: "JSON_stringify_headers hs \<noteq> []"
  by (simp add: JSON_stringify_headers_def)

text \<open>
  Claim C2 says that \<^verbatim>\<open>clearCache(url)\<close> evicts the entry that the fetch path stored for
  that URL. The fetch path stores under the digest of the URL followed by the serialised
  headers (\<^verbatim>\<open>{}\<close> for the default empty headers), while \<^verbatim>\<open>clearCache\<close> deletes the
  digest of the URL alone. The two digested strings always differ, and whenever the two
  digests differ the entry of the fetch path stays in both tiers.
\<close>

theorem clearCache_misses_fetch_key:
  "url p @ JSON_stringify_headers (headers p) \<noteq> url p
   \<and> (url p \<noteq> [] \<and> digest (url p @ JSON_stringify_headers (headers p)) \<noteq> digest (url p) \<longrightarrow>
        fmlookup (cache (clearCache digest (Some (url p)) w)) (getCacheKey digest p)
          = fmlookup (cache w) (getCacheKey digest p)
        \<and> fmlookup (cacheFiles (clearCache digest (Some (url p)) w)) (cacheFilePath (getCacheKey digest p))
          = fmlookup (cacheFiles w) (cacheFilePath (getCacheKey digest p)))"
proof (intro conjI impI)
  show "url p @ JSON_stringify_headers (headers p) \<noteq> url p"
    using JSON_stringify_headers_nonempty [of "headers p"] by simp
next
  assume a: "url p \<noteq> [] \<and> digest (url p @ JSON_stringify_headers (headers p)) \<noteq> digest (url p)"
  then have k: "getCacheKey digest p \<noteq> digest (url p)" by (simp add: getCacheKey_def)
  with a show "fmlookup (cache (clearCache digest (Some (url p)) w)) (getCacheKey digest p)
          = fmlookup (cache w) (getCacheKey digest p)"
    by (simp add: clearCache_def Let_def)
  from a k show "fmlookup (cacheFiles (clearCache digest (Some (url p)) w)) (cacheFilePath (getCacheKey digest p))
          = fmlookup (cacheFiles w) (cacheFilePath (getCacheKey digest p))"
    by (simp add: clearCache_def Let_def cacheFilePath_inject)
qed

text \<open>With an injective digest: the document is fetched and cached, \<^verbatim>\<open>clearCache\<close> is
  called with the same URL, and the entry is still there in both tiers.\<close>

theorem clearCache_misses_fetch_key_witness:
  "fmlookup (cache (clearCache (\<lambda>s. s) (Some ''api.json'')
       (snd (snd (fetchRawApiData (example_local_env example_document) (\<lambda>s. s) example_local_parser (empty_world 0))))))
     ''api.json{}''
     = Some \<lparr> timestamp = 0, data = 0 \<rparr>
   \<and> deref (clearCache (\<lambda>s. s) (Some ''api.json'')
       (snd (snd (fetchRawApiData (example_local_env example_document) (\<lambda>s. s) example_local_parser (empty_world 0))))) 0
     = example_document
   \<and> fmlookup (cacheFiles (clearCache (\<lambda>s. s) (Some ''api.json'')
       (snd (snd (fetchRawApiData (example_local_env example_document) (\<lambda>s. s) example_local_parser (empty_world 0))))))
     ''.api-cache/api.json{}.json''
     = Some \<lparr> mtimeMs = 0, content = Some example_document \<rparr>"
proof -
  let ?dg = "\<lambda>s::string. s"
  let ?p = example_local_parser
  let ?run1 = "fetchRawApiData (example_local_env example_document) ?dg ?p (empty_world 0)"
  let ?w1 = "snd (snd ?run1)"
  let ?key = "''api.json{}''"
  have key: "getCacheKey ?dg ?p = ?key" by code_simp
  have up: "url ?p = ''api.json''" by code_simp
  have h: "url ?p \<noteq> [] \<and> ?dg (url ?p @ JSON_stringify_headers (headers ?p)) \<noteq> ?dg (url ?p)"
    by code_simp
  note t = clearCache_misses_fetch_key [where p = ?p and digest = ?dg and w = ?w1,
      THEN conjunct2, THEN mp, OF h]
  have a: "fmlookup (cache ?w1) ?key = Some \<lparr> timestamp = 0, data = 0 \<rparr>" by code_simp
  have b: "fmlookup (cacheFiles ?w1) (cacheFilePath ?key)
             = Some \<lparr> mtimeMs = 0, content = Some example_document \<rparr>"
    by code_simp
  have c: "deref (clearCache ?dg (Some ''api.json'') ?w1) 0 = example_document" by code_simp
  have path: "cacheFilePath ?key = ''.api-cache/api.json{}.json''"
    by (simp add: cacheFilePath_def)
  from t a b c show ?thesis
    unfolding key up path by simp
qed

end
